theory Spec2Isabelle
  imports Complex_Main "HOL-Library.AList"
begin

section \<open>Floating-point scores\<close>

text \<open>
  Log-likelihoods are IEEE doubles. The selectors and the recognizer compare them with
  \<open><\<close> and \<open>></\<close> against the sentinels \<open>np.inf\<close>, \<open>-np.inf\<close> and
  \<open>float('-inf')\<close>, so the two infinities and NaN are values of the model. A finite
  double is idealised as the real number it denotes: comparisons of finite doubles are
  exact, rounding and overflow of finite arithmetic are not modelled.
\<close>

datatype pyfloat = NaN | NInf | Fin real | PInf

text \<open>The comparison \<open>a < b\<close>: false as soon as one side is NaN.\<close>

fun fl_lt :: "pyfloat \<Rightarrow> pyfloat \<Rightarrow> bool" where
  "fl_lt NaN _ = False"
| "fl_lt _ NaN = False"
| "fl_lt NInf NInf = False"
| "fl_lt NInf _ = True"
| "fl_lt (Fin a) (Fin b) = (a < b)"
| "fl_lt (Fin a) PInf = True"
| "fl_lt (Fin a) NInf = False"
| "fl_lt PInf _ = False"

definition fl_gt :: "pyfloat \<Rightarrow> pyfloat \<Rightarrow> bool" where
  "fl_gt a b = fl_lt b a"

fun fl_neg :: "pyfloat \<Rightarrow> pyfloat" where
  "fl_neg NaN = NaN"
| "fl_neg NInf = PInf"
| "fl_neg (Fin a) = Fin (- a)"
| "fl_neg PInf = NInf"

fun fl_add :: "pyfloat \<Rightarrow> pyfloat \<Rightarrow> pyfloat" where
  "fl_add NaN _ = NaN"
| "fl_add _ NaN = NaN"
| "fl_add (Fin a) (Fin b) = Fin (a + b)"
| "fl_add (Fin a) y = y"
| "fl_add x (Fin b) = x"
| "fl_add PInf PInf = PInf"
| "fl_add NInf NInf = NInf"
| "fl_add PInf NInf = NaN"
| "fl_add NInf PInf = NaN"

definition fl_sub :: "pyfloat \<Rightarrow> pyfloat \<Rightarrow> pyfloat" where
  "fl_sub a b = fl_add a (fl_neg b)"

text \<open>An infinity times a finite factor: the sign of the factor decides, zero gives NaN.\<close>

definition inf_times :: "pyfloat \<Rightarrow> real \<Rightarrow> pyfloat" where
  "inf_times i a = (if a = 0 then NaN else if 0 < a then i else fl_neg i)"

fun fl_mul :: "pyfloat \<Rightarrow> pyfloat \<Rightarrow> pyfloat" where
  "fl_mul NaN _ = NaN"
| "fl_mul _ NaN = NaN"
| "fl_mul (Fin a) (Fin b) = Fin (a * b)"
| "fl_mul (Fin a) y = inf_times y a"
| "fl_mul x (Fin b) = inf_times x b"
| "fl_mul PInf y = y"
| "fl_mul NInf y = fl_neg y"

text \<open>
  Division of a double by a Python int \<open>d\<close> (converted to a double first). NumPy does not
  raise on a zero divisor: it yields an infinity or NaN.
\<close>

fun fl_div_int :: "pyfloat \<Rightarrow> int \<Rightarrow> pyfloat" where
  "fl_div_int NaN d = NaN"
| "fl_div_int (Fin a) d =
     (if d = 0 then (if a = 0 then NaN else if 0 < a then PInf else NInf)
      else Fin (a / of_int d))"
| "fl_div_int x d = (if d < 0 then fl_neg x else x)"

text \<open>
  Accumulators such as \<open>sumLogL = 0\<close> start as the Python int \<open>0\<close> and become NumPy
  doubles at the first \<open>+\<close> with a score. The difference shows in \<open>/\<close>: an int divided
  by the int zero raises, a NumPy double divided by zero does not.
\<close>

datatype exn =
  FitError | ScoreError | KeyError | IndexError | ZeroDivisionError | ValueError | AttributeError

datatype pynum = PyInt int | NpFloat pyfloat

fun py_add :: "pynum \<Rightarrow> pyfloat \<Rightarrow> pynum" where
  "py_add (PyInt a) l = NpFloat (fl_add (Fin (of_int a)) l)"
| "py_add (NpFloat x) l = NpFloat (fl_add x l)"

fun py_truediv :: "pynum \<Rightarrow> int \<Rightarrow> exn + pyfloat" where
  "py_truediv (PyInt a) d =
     (if d = 0 then Inl ZeroDivisionError else Inr (Fin (of_int a / of_int d)))"
| "py_truediv (NpFloat x) d = Inr (fl_div_int x d)"

text \<open>\<open>np.log\<close> of a length: \<open>np.log(0)\<close> is \<open>-inf\<close> (with a warning, not an exception).\<close>

definition np_log :: "nat \<Rightarrow> pyfloat" where
  "np_log N = (if N = 0 then NInf else Fin (ln (real N)))"

section \<open>The data and the external capability\<close>

text \<open>
  \<open>X\<close> is a matrix with one row per frame, \<open>lengths\<close> the lengths of the sequences
  concatenated in it.
\<close>

type_synonym frame = "real list"

type_synonym xlengths = "frame list \<times> nat list"

text \<open>
  \<open>GaussianHMM(...)\<close> of hmmlearn: the constructor arguments the source passes, the
  others at their defaults (\<open>n_iter = 10\<close>, \<open>random_state = None\<close>).
\<close>

record hmm_args =
  n_components :: int
  n_iter :: nat
  hmm_random_state :: "int option"

definition GaussianHMM :: "int \<Rightarrow> hmm_args" where
  "GaussianHMM n = \<lparr>n_components = n, n_iter = 10, hmm_random_state = None\<rparr>"

text \<open>
  The libraries are not part of the repository; they are parameters of the model.
  \<open>hmm_fit\<close> is \<open>GaussianHMM(args).fit(X, lengths)\<close>: it may raise, and it reads and
  advances the process-wide NumPy random generator (type \<open>'g\<close>), which is what an
  unseeded estimator draws its initial parameters from. \<open>hmm_score\<close> is
  \<open>model.score(X, lengths)\<close>, \<open>hmm_n_features\<close> the attribute \<open>model.n_features\<close>,
  \<open>kfold_split\<close> is \<open>KFold().split(sequences)\<close> on a list of the given length: the
  (train indices, test indices) pairs, or an exception.
\<close>

record ('m, 'g) library =
  hmm_fit :: "hmm_args \<Rightarrow> xlengths \<Rightarrow> 'g \<Rightarrow> (exn + 'm) \<times> 'g"
  hmm_score :: "'m \<Rightarrow> xlengths \<Rightarrow> exn + pyfloat"
  hmm_n_features :: "'m \<Rightarrow> int"
  kfold_split :: "nat \<Rightarrow> exn + (nat list \<times> nat list) list"

section \<open>my_recognizer.py\<close>

text \<open>
  An entry of \<open>models\<close> is a trained model or \<open>None\<close> (a selector that found no model
  returns \<open>None\<close>); \<open>None.score\<close> raises.
\<close>

fun model_score :: "('m, 'g) library \<Rightarrow> 'm option \<Rightarrow> xlengths \<Rightarrow> exn + pyfloat" where
  "model_score L None d = Inl AttributeError"
| "model_score L (Some model) d = hmm_score L model d"

text \<open>
  The \<open>try\<close>/\<open>except\<close> of the inner loop (lines 31 to 34): the score, or \<open>-inf\<close> when
  scoring raises.
\<close>

definition try_score :: "('m, 'g) library \<Rightarrow> 'm option \<Rightarrow> xlengths \<Rightarrow> pyfloat" where
  "try_score L model d = (case model_score L model d of Inr logL \<Rightarrow> logL | Inl e \<Rightarrow> NInf)"

text \<open>
  The inner loop over \<open>models.items()\<close> (lines 30 to 38). A dict is an association list
  in insertion order; \<open>prob_dict[word] = logL\<close> is \<open>AList.update\<close>. The state is
  \<open>(prob_dict, logL_max, best_word)\<close>.
\<close>

fun score_words ::
  "('m, 'g) library \<Rightarrow> xlengths \<Rightarrow> (string \<times> 'm option) list \<Rightarrow>
   (string \<times> pyfloat) list \<times> pyfloat \<times> string \<Rightarrow>
   (string \<times> pyfloat) list \<times> pyfloat \<times> string" where
  "score_words L d [] st = st"
| "score_words L d ((word, model) # rest) (prob_dict, logL_max, best_word) =
     (let logL = try_score L model d in
      if fl_gt logL logL_max
      then score_words L d rest (AList.update word logL prob_dict, logL, word)
      else score_words L d rest (AList.update word logL prob_dict, logL_max, best_word))"

text \<open>
  The outer loop over \<open>X_all.items()\<close> (lines 26 to 40); \<open>X_all[key]\<close> is the value of
  the item. \<open>logL_max\<close> is reset for every item (line 28), \<open>best_word\<close> is not: it is
  set once before the loop (line 24) and carried from item to item.
\<close>

fun recognize_loop ::
  "('m, 'g) library \<Rightarrow> (string \<times> 'm option) list \<Rightarrow> (nat \<times> xlengths) list \<Rightarrow>
   (string \<times> pyfloat) list list \<times> string list \<times> string \<Rightarrow>
   (string \<times> pyfloat) list list \<times> string list" where
  "recognize_loop L models [] (probabilities, guesses, best_word) = (probabilities, guesses)"
| "recognize_loop L models ((key, d) # items) (probabilities, guesses, best_word) =
     (case score_words L d models ([], NInf, best_word) of
        (prob_dict, logL_max, best_word') \<Rightarrow>
          recognize_loop L models items
            (probabilities @ [prob_dict], guesses @ [best_word'], best_word'))"

definition recognize ::
  "('m, 'g) library \<Rightarrow> (string \<times> 'm option) list \<Rightarrow> (nat \<times> xlengths) list \<Rightarrow>
   (string \<times> pyfloat) list list \<times> string list" where
  "recognize L models X_all = recognize_loop L models X_all ([], [], '''')"

section \<open>my_model_selectors.py\<close>

subsection \<open>ModelSelector\<close>

type_synonym sequence = "frame list"

record ModelSelector =
  words :: "(string \<times> sequence list) list"
  hwords :: "(string \<times> xlengths) list"
  sequences :: "sequence list"
  self_X :: "frame list"
  lengths :: "nat list"
  this_word :: string
  n_constant :: int
  min_n_components :: int
  max_n_components :: int
  random_state :: int
  verbose :: bool

text \<open>
  The constructor (lines 16 to 29): the two dict lookups raise \<open>KeyError\<close> when
  \<open>this_word\<close> is not a key.
\<close>

definition ModelSelector_init ::
  "(string \<times> sequence list) list \<Rightarrow> (string \<times> xlengths) list \<Rightarrow> string \<Rightarrow>
   int \<Rightarrow> int \<Rightarrow> int \<Rightarrow> int \<Rightarrow> bool \<Rightarrow> exn + ModelSelector" where
  "ModelSelector_init all_word_sequences all_word_Xlengths w nc lo hi seed vb =
     (case map_of all_word_sequences w of
        None \<Rightarrow> Inl KeyError
      | Some seqs \<Rightarrow>
          (case map_of all_word_Xlengths w of
             None \<Rightarrow> Inl KeyError
           | Some (X, lens) \<Rightarrow>
               Inr \<lparr>words = all_word_sequences, hwords = all_word_Xlengths,
                    sequences = seqs, self_X = X, lengths = lens, this_word = w,
                    n_constant = nc, min_n_components = lo, max_n_components = hi,
                    random_state = seed, verbose = vb\<rparr>))"

text \<open>
  \<open>base_model\<close> (lines 34 to 47). The result is \<open>Inr (Some model)\<close> for a returned
  model, \<open>Inr None\<close> for a returned \<open>None\<close>, \<open>Inl e\<close> for an exception that reaches
  the caller. The messages printed in verbose mode are not modelled.
\<close>

definition base_model ::
  "('m, 'g) library \<Rightarrow> ModelSelector \<Rightarrow> int \<Rightarrow> 'g \<Rightarrow> (exn + 'm option) \<times> 'g" where
  "base_model L s num_states g =
     (case hmm_fit L
             \<lparr>n_components = num_states, n_iter = 1000,
              hmm_random_state = Some (random_state s)\<rparr>
             (self_X s, lengths s) g of
        (Inr hmm_model, g') \<Rightarrow> (Inr (Some hmm_model), g')
      | (Inl e, g') \<Rightarrow> (Inr None, g'))"

subsection \<open>SelectorConstant\<close>

definition SelectorConstant_select ::
  "('m, 'g) library \<Rightarrow> ModelSelector \<Rightarrow> 'g \<Rightarrow> (exn + 'm option) \<times> 'g" where
  "SelectorConstant_select L s g = base_model L s (n_constant s) g"

subsection \<open>SelectorBIC\<close>

text \<open>
  Line 84 reads \<open>p = n** + 2 * n * model.n_features - 1\<close>. Python parses \<open>+ 2\<close> as the
  exponent (a unary plus binds tighter than \<open>*\<close>), so the expression is
  \<open>((n ** 2) * n * model.n_features) - 1\<close>.
\<close>

definition bic_p :: "int \<Rightarrow> int \<Rightarrow> int" where
  "bic_p n n_features = n ^ 2 * n * n_features - 1"

text \<open>
  The body of the \<open>try\<close> up to the BIC value (lines 82 to 85): the BIC of candidate
  \<open>n\<close>, or the exception that ends this candidate.
\<close>

definition bic_candidate ::
  "('m, 'g) library \<Rightarrow> ModelSelector \<Rightarrow> int \<Rightarrow> 'g \<Rightarrow> (exn + pyfloat) \<times> 'g" where
  "bic_candidate L s n g =
     (case hmm_fit L (GaussianHMM n) (self_X s, lengths s) g of
        (Inl e, g') \<Rightarrow> (Inl e, g')
      | (Inr model, g') \<Rightarrow>
          (case hmm_score L model (self_X s, lengths s) of
             Inl e \<Rightarrow> (Inl e, g')
           | Inr logL \<Rightarrow>
               (let p = bic_p n (hmm_n_features L model);
                    BIC = fl_add (fl_mul (Fin (- 2)) logL)
                            (fl_mul (Fin (of_int p)) (np_log (length (self_X s))))
                in (Inr BIC, g'))))"

text \<open>The loop over \<open>range(min, max + 1)\<close>; the state is \<open>(best_num_components, min_BIC)\<close>
  and the random generator.\<close>

fun bic_loop ::
  "('m, 'g) library \<Rightarrow> ModelSelector \<Rightarrow> int list \<Rightarrow> int \<times> pyfloat \<times> 'g \<Rightarrow>
   int \<times> pyfloat \<times> 'g" where
  "bic_loop L s [] st = st"
| "bic_loop L s (n # ns) (best_num_components, min_BIC, g) =
     (case bic_candidate L s n g of
        (Inr BIC, g') \<Rightarrow>
          if fl_lt BIC min_BIC then bic_loop L s ns (n, BIC, g')
          else bic_loop L s ns (best_num_components, min_BIC, g')
      | (Inl e, g') \<Rightarrow> bic_loop L s ns (best_num_components, min_BIC, g'))"

definition SelectorBIC_select ::
  "('m, 'g) library \<Rightarrow> ModelSelector \<Rightarrow> 'g \<Rightarrow> (exn + 'm option) \<times> 'g" where
  "SelectorBIC_select L s g =
     (case bic_loop L s [min_n_components s..max_n_components s] (0, PInf, g) of
        (best_num_components, min_BIC, g') \<Rightarrow> base_model L s best_num_components g')"

subsection \<open>SelectorDIC\<close>

text \<open>The loop over \<open>self.words\<close> (lines 113 to 117); \<open>self.hwords[word]\<close> raises on a
  missing key.\<close>

fun dic_others ::
  "('m, 'g) library \<Rightarrow> ModelSelector \<Rightarrow> 'm \<Rightarrow> string list \<Rightarrow> pynum \<Rightarrow> exn + pynum" where
  "dic_others L s model [] sumLogL = Inr sumLogL"
| "dic_others L s model (word # ws) sumLogL =
     (if word \<noteq> this_word s then
        (case map_of (hwords s) word of
           None \<Rightarrow> Inl KeyError
         | Some d \<Rightarrow>
             (case hmm_score L model d of
                Inl e \<Rightarrow> Inl e
              | Inr logL_temp \<Rightarrow> dic_others L s model ws (py_add sumLogL logL_temp)))
      else dic_others L s model ws sumLogL)"

text \<open>The body of the \<open>try\<close> up to the DIC value (lines 110 to 119).\<close>

definition dic_candidate ::
  "('m, 'g) library \<Rightarrow> ModelSelector \<Rightarrow> int \<Rightarrow> 'g \<Rightarrow> (exn + pyfloat) \<times> 'g" where
  "dic_candidate L s n g =
     (case hmm_fit L (GaussianHMM n) (self_X s, lengths s) g of
        (Inl e, g') \<Rightarrow> (Inl e, g')
      | (Inr model, g') \<Rightarrow>
          (case hmm_score L model (self_X s, lengths s) of
             Inl e \<Rightarrow> (Inl e, g')
           | Inr logL \<Rightarrow>
               (case dic_others L s model (map fst (words s)) (PyInt 0) of
                  Inl e \<Rightarrow> (Inl e, g')
                | Inr sumLogL \<Rightarrow>
                    (case py_truediv sumLogL (int (length (words s)) - 1) of
                       Inl e \<Rightarrow> (Inl e, g')
                     | Inr avgLogL \<Rightarrow> (Inr (fl_sub logL avgLogL), g')))))"

fun dic_loop ::
  "('m, 'g) library \<Rightarrow> ModelSelector \<Rightarrow> int list \<Rightarrow> int \<times> pyfloat \<times> 'g \<Rightarrow>
   int \<times> pyfloat \<times> 'g" where
  "dic_loop L s [] st = st"
| "dic_loop L s (n # ns) (best_num_components, max_DIC, g) =
     (case dic_candidate L s n g of
        (Inr DIC, g') \<Rightarrow>
          if fl_gt DIC max_DIC then dic_loop L s ns (n, DIC, g')
          else dic_loop L s ns (best_num_components, max_DIC, g')
      | (Inl e, g') \<Rightarrow> dic_loop L s ns (best_num_components, max_DIC, g'))"

definition SelectorDIC_select ::
  "('m, 'g) library \<Rightarrow> ModelSelector \<Rightarrow> 'g \<Rightarrow> (exn + 'm option) \<times> 'g" where
  "SelectorDIC_select L s g =
     (case dic_loop L s [min_n_components s..max_n_components s] (0, NInf, g) of
        (best_num_components, max_DIC, g') \<Rightarrow> base_model L s best_num_components g')"

subsection \<open>SelectorCV\<close>

text \<open>
  Modelled from the spec: \<open>combine_sequences\<close> of \<open>asl_utils\<close>, which is not among the
  source files. It concatenates the sequences at the given indices row-wise into \<open>X\<close> and
  lists their lengths; an index outside the list is an error.
\<close>

definition combine_sequences :: "nat list \<Rightarrow> sequence list \<Rightarrow> exn + xlengths" where
  "combine_sequences split_index_list seqs =
     (if \<forall>i \<in> set split_index_list. i < length seqs
      then Inr (concat (map (\<lambda>i. seqs ! i) split_index_list),
                map (\<lambda>i. length (seqs ! i)) split_index_list)
      else Inl IndexError)"

text \<open>One fold (lines 143 to 146): the held-out log-likelihood, or the exception.\<close>

definition cv_fold ::
  "('m, 'g) library \<Rightarrow> ModelSelector \<Rightarrow> int \<Rightarrow> nat list \<times> nat list \<Rightarrow> 'g \<Rightarrow>
   (exn + pyfloat) \<times> 'g" where
  "cv_fold L s n idx g =
     (case idx of (cv_train_idx, cv_test_idx) \<Rightarrow>
        (case combine_sequences cv_train_idx (sequences s) of
           Inl e \<Rightarrow> (Inl e, g)
         | Inr train \<Rightarrow>
             (case hmm_fit L (GaussianHMM n) train g of
                (Inl e, g') \<Rightarrow> (Inl e, g')
              | (Inr model, g') \<Rightarrow>
                  (case combine_sequences cv_test_idx (sequences s) of
                     Inl e \<Rightarrow> (Inl e, g')
                   | Inr test \<Rightarrow>
                       (case hmm_score L model test of
                          Inl e \<Rightarrow> (Inl e, g')
                        | Inr logL \<Rightarrow> (Inr logL, g'))))))"

text \<open>
  The loop over the folds (lines 142 to 147). It stands inside the \<open>try\<close> of the
  candidate: an exception in a fold leaves the loop and the candidate.
\<close>

fun cv_folds ::
  "('m, 'g) library \<Rightarrow> ModelSelector \<Rightarrow> int \<Rightarrow> (nat list \<times> nat list) list \<Rightarrow>
   pynum \<Rightarrow> 'g \<Rightarrow> (exn + pynum) \<times> 'g" where
  "cv_folds L s n [] logL_sum g = (Inr logL_sum, g)"
| "cv_folds L s n (idx # folds) logL_sum g =
     (case cv_fold L s n idx g of
        (Inl e, g') \<Rightarrow> (Inl e, g')
      | (Inr logL, g') \<Rightarrow> cv_folds L s n folds (py_add logL_sum logL) g')"

text \<open>The body of the \<open>try\<close> up to the average (lines 140 to 148).\<close>

definition cv_candidate ::
  "('m, 'g) library \<Rightarrow> ModelSelector \<Rightarrow> int \<Rightarrow> 'g \<Rightarrow> (exn + pyfloat) \<times> 'g" where
  "cv_candidate L s n g =
     (case kfold_split L (length (sequences s)) of
        Inl e \<Rightarrow> (Inl e, g)
      | Inr folds \<Rightarrow>
          (case cv_folds L s n folds (PyInt 0) g of
             (Inl e, g') \<Rightarrow> (Inl e, g')
           | (Inr logL_sum, g') \<Rightarrow>
               (case py_truediv logL_sum 3 of
                  Inl e \<Rightarrow> (Inl e, g')
                | Inr logL_avg \<Rightarrow> (Inr logL_avg, g'))))"

fun cv_loop ::
  "('m, 'g) library \<Rightarrow> ModelSelector \<Rightarrow> int list \<Rightarrow> int \<times> pyfloat \<times> 'g \<Rightarrow>
   int \<times> pyfloat \<times> 'g" where
  "cv_loop L s [] st = st"
| "cv_loop L s (n # ns) (best_num_components, best_avg, g) =
     (case cv_candidate L s n g of
        (Inr logL_avg, g') \<Rightarrow>
          if fl_gt logL_avg best_avg then cv_loop L s ns (n, logL_avg, g')
          else cv_loop L s ns (best_num_components, best_avg, g')
      | (Inl e, g') \<Rightarrow> cv_loop L s ns (best_num_components, best_avg, g'))"

text \<open>
  \<open>best_num_components\<close> as line 156 passes it on: the result of the loop when there
  are at least three sequences, the constant 3 otherwise.
\<close>

definition cv_best ::
  "('m, 'g) library \<Rightarrow> ModelSelector \<Rightarrow> 'g \<Rightarrow> int \<times> 'g" where
  "cv_best L s g =
     (if 3 \<le> length (sequences s) then
        (case cv_loop L s [min_n_components s..max_n_components s] (0, NInf, g) of
           (best_num_components, best_avg, g') \<Rightarrow> (best_num_components, g'))
      else (3, g))"

definition SelectorCV_select ::
  "('m, 'g) library \<Rightarrow> ModelSelector \<Rightarrow> 'g \<Rightarrow> (exn + 'm option) \<times> 'g" where
  "SelectorCV_select L s g =
     (case cv_best L s g of (best_num_components, g') \<Rightarrow> base_model L s best_num_components g')"

section \<open>Vocabulary of the properties\<close>

text \<open>
  The outcome of every candidate of a selection loop, in the order of the loop: the
  candidate function is run on each \<open>n\<close> with the random generator as the previous
  candidate left it.
\<close>

fun outcomes ::
  "('k \<Rightarrow> 'g \<Rightarrow> (exn + pyfloat) \<times> 'g) \<Rightarrow> 'k list \<Rightarrow> 'g \<Rightarrow> ('k \<times> (exn + pyfloat)) list" where
  "outcomes cand [] g = []"
| "outcomes cand (n # ns) g = (case cand n g of (r, g') \<Rightarrow> (n, r) # outcomes cand ns g')"

text \<open>
  What the three loops do with such a list of outcomes: an outcome that is strictly
  \<open>better\<close> than the bound replaces it, an exception changes nothing.
\<close>

fun keep_best ::
  "(pyfloat \<Rightarrow> pyfloat \<Rightarrow> bool) \<Rightarrow> ('k \<times> (exn + pyfloat)) list \<Rightarrow> 'k \<times> pyfloat \<Rightarrow> 'k \<times> pyfloat" where
  "keep_best better [] st = st"
| "keep_best better ((n, Inr v) # rs) (best, bound) =
     (if better v bound then keep_best better rs (n, v) else keep_best better rs (best, bound))"
| "keep_best better ((n, Inl e) # rs) st = keep_best better rs st"

text \<open>
  The same run with the generator: for every candidate, the state of the random generator
  it started from and its outcome.
\<close>

fun runs ::
  "('k \<Rightarrow> 'g \<Rightarrow> (exn + pyfloat) \<times> 'g) \<Rightarrow> 'k list \<Rightarrow> 'g \<Rightarrow> ('k \<times> 'g \<times> (exn + pyfloat)) list" where
  "runs cand [] g = []"
| "runs cand (n # ns) g = (case cand n g of (r, g') \<Rightarrow> (n, g, r) # runs cand ns g')"

definition bic_outcomes ::
  "('m, 'g) library \<Rightarrow> ModelSelector \<Rightarrow> 'g \<Rightarrow> (int \<times> (exn + pyfloat)) list" where
  "bic_outcomes L s g =
     outcomes (bic_candidate L s) [min_n_components s..max_n_components s] g"

definition dic_outcomes ::
  "('m, 'g) library \<Rightarrow> ModelSelector \<Rightarrow> 'g \<Rightarrow> (int \<times> (exn + pyfloat)) list" where
  "dic_outcomes L s g =
     outcomes (dic_candidate L s) [min_n_components s..max_n_components s] g"

definition bic_runs ::
  "('m, 'g) library \<Rightarrow> ModelSelector \<Rightarrow> 'g \<Rightarrow> (int \<times> 'g \<times> (exn + pyfloat)) list" where
  "bic_runs L s g = runs (bic_candidate L s) [min_n_components s..max_n_components s] g"

definition dic_runs ::
  "('m, 'g) library \<Rightarrow> ModelSelector \<Rightarrow> 'g \<Rightarrow> (int \<times> 'g \<times> (exn + pyfloat)) list" where
  "dic_runs L s g = runs (dic_candidate L s) [min_n_components s..max_n_components s] g"

text \<open>
  \<open>ls\<close> are the scores of \<open>model\<close> on the data of every label other than
  \<open>this_word\<close>, in the order of \<open>self.words\<close>.
\<close>

definition other_scores ::
  "('m, 'g) library \<Rightarrow> ModelSelector \<Rightarrow> 'm \<Rightarrow> pyfloat list \<Rightarrow> bool" where
  "other_scores L s model ls =
     list_all2 (\<lambda>word l. \<exists>d. map_of (hwords s) word = Some d \<and> hmm_score L model d = Inr l)
       (filter (\<lambda>word. word \<noteq> this_word s) (map fst (words s))) ls"

text \<open>
  The folds of one candidate as the loop runs them: for every fold, the state of the
  random generator it started from and its outcome, up to and including the first fold
  that raises. The folds after it are not run.
\<close>

fun cv_fold_runs ::
  "('m, 'g) library \<Rightarrow> ModelSelector \<Rightarrow> int \<Rightarrow> (nat list \<times> nat list) list \<Rightarrow> 'g \<Rightarrow>
   ((nat list \<times> nat list) \<times> 'g \<times> (exn + pyfloat)) list" where
  "cv_fold_runs L s n [] g = []"
| "cv_fold_runs L s n (idx # folds) g =
     (case cv_fold L s n idx g of
        (Inl e, g') \<Rightarrow> [(idx, g, Inl e)]
      | (Inr logL, g') \<Rightarrow> (idx, g, Inr logL) # cv_fold_runs L s n folds g')"

text \<open>
  The reading of claim C4, for comparison with \<open>cv_folds\<close> and \<open>cv_candidate\<close>: a
  fold that raises is skipped, the folds after it still contribute, and the sum is
  divided by 3.
\<close>

fun cv_folds_skipping ::
  "('m, 'g) library \<Rightarrow> ModelSelector \<Rightarrow> int \<Rightarrow> (nat list \<times> nat list) list \<Rightarrow>
   pynum \<Rightarrow> 'g \<Rightarrow> pynum \<times> 'g" where
  "cv_folds_skipping L s n [] logL_sum g = (logL_sum, g)"
| "cv_folds_skipping L s n (idx # folds) logL_sum g =
     (case cv_fold L s n idx g of
        (Inl e, g') \<Rightarrow> cv_folds_skipping L s n folds logL_sum g'
      | (Inr logL, g') \<Rightarrow> cv_folds_skipping L s n folds (py_add logL_sum logL) g')"

definition cv_candidate_skipping ::
  "('m, 'g) library \<Rightarrow> ModelSelector \<Rightarrow> int \<Rightarrow> 'g \<Rightarrow> (exn + pyfloat) \<times> 'g" where
  "cv_candidate_skipping L s n g =
     (case kfold_split L (length (sequences s)) of
        Inl e \<Rightarrow> (Inl e, g)
      | Inr folds \<Rightarrow>
          (case cv_folds_skipping L s n folds (PyInt 0) g of
             (logL_sum, g') \<Rightarrow> (py_truediv logL_sum 3, g')))"

text \<open>The scores of one test item against the models, in the order of the dict.\<close>

definition word_scores ::
  "('m, 'g) library \<Rightarrow> xlengths \<Rightarrow> (string \<times> 'm option) list \<Rightarrow> (string \<times> (exn + pyfloat)) list" where
  "word_scores L d models = map (\<lambda>(word, model). (word, Inr (try_score L model d))) models"

section \<open>Example data\<close>

text \<open>
  A recognizer example in which a model is its own scoring function. Both models score a
  one-sequence item of length one and raise on anything else.
\<close>

definition score_lib :: "(xlengths \<Rightarrow> exn + pyfloat, unit) library" where
  "score_lib = \<lparr>hmm_fit = (\<lambda>a d g. (Inl FitError, g)), hmm_score = (\<lambda>model d. model d),
     hmm_n_features = (\<lambda>model. 1), kfold_split = (\<lambda>n. Inl ValueError)\<rparr>"

definition cat_model :: "xlengths \<Rightarrow> exn + pyfloat" where
  "cat_model d = (if snd d = [1] then Inr (Fin (- 50.2)) else Inl ScoreError)"

definition dog_model :: "xlengths \<Rightarrow> exn + pyfloat" where
  "dog_model d = (if snd d = [1] then Inr (Fin (- 30.1)) else Inl ScoreError)"

definition two_models :: "(string \<times> (xlengths \<Rightarrow> exn + pyfloat) option) list" where
  "two_models = [(''CAT'', Some cat_model), (''DOG'', Some dog_model)]"

definition two_items :: "(nat \<times> xlengths) list" where
  "two_items = [(0, ([[0]], [1])), (1, ([[0], [1]], [2]))]"

text \<open>
  The unshuffled three-fold split of scikit-learn: three consecutive blocks of indices,
  the first \<open>n mod 3\<close> of them one longer; fewer than three samples are an error.
\<close>

definition kfold3 :: "nat \<Rightarrow> exn + (nat list \<times> nat list) list" where
  "kfold3 n =
     (if n < 3 then Inl ValueError
      else (let q = n div 3; r = n mod 3;
                s1 = q + (if 0 < r then 1 else 0);
                s2 = q + (if 1 < r then 1 else 0);
                t1 = [0..<s1]; t2 = [s1..<s1 + s2]; t3 = [s1 + s2..<n]
            in Inr [(t2 @ t3, t1), (t1 @ t3, t2), (t1 @ t2, t3)]))"

text \<open>
  Example libraries given by tables: a trained model is its number of states, training
  and scoring are looked up, the random generator is not used.
\<close>

definition table_lib ::
  "(int \<Rightarrow> xlengths \<Rightarrow> exn + int) \<Rightarrow> (int \<Rightarrow> xlengths \<Rightarrow> exn + pyfloat) \<Rightarrow> (int, unit) library" where
  "table_lib fit_table score_table =
     \<lparr>hmm_fit = (\<lambda>a d g. (fit_table (n_components a) d, g)), hmm_score = score_table,
      hmm_n_features = (\<lambda>model. 1), kfold_split = kfold3\<rparr>"

definition positive_fit :: "int \<Rightarrow> xlengths \<Rightarrow> exn + int" where
  "positive_fit n d = (if 1 \<le> n then Inr n else Inl FitError)"

definition bic_scores :: "int \<Rightarrow> xlengths \<Rightarrow> exn + pyfloat" where
  "bic_scores model d =
     Inr (Fin (if model = 2 then - 60 else if model = 3 then - 50 else - 45))"

definition bic_lib :: "(int, unit) library" where
  "bic_lib = table_lib positive_fit bic_scores"

definition neg_inf_scores :: "int \<Rightarrow> xlengths \<Rightarrow> exn + pyfloat" where
  "neg_inf_scores model d = Inr NInf"

definition cat_selector :: ModelSelector where
  "cat_selector =
     \<lparr>words = [(''CAT'', [[[0]]])], hwords = [(''CAT'', ([[0]], [1]))],
      sequences = [[[0]]], self_X = [[0]], lengths = [1], this_word = ''CAT'',
      n_constant = 3, min_n_components = 2, max_n_components = 4,
      random_state = 14, verbose = False\<rparr>"

definition two_frames :: ModelSelector where
  "two_frames =
     \<lparr>words = [(''CAT'', [[[0], [1]]])], hwords = [(''CAT'', ([[0], [1]], [2]))],
      sequences = [[[0], [1]]], self_X = [[0], [1]], lengths = [2], this_word = ''CAT'',
      n_constant = 3, min_n_components = 2, max_n_components = 4,
      random_state = 14, verbose = False\<rparr>"

definition two_sequence_selector :: ModelSelector where
  "two_sequence_selector =
     cat_selector\<lparr>words := [(''CAT'', [[[0]], [[1]]])], hwords := [(''CAT'', ([[0], [1]], [1, 1]))],
       sequences := [[[0]], [[1]]], self_X := [[0], [1]], lengths := [1, 1]\<rparr>"

text \<open>Three labels with one one-frame sequence each, and the scores of the candidates on them.\<close>

definition three_words :: ModelSelector where
  "three_words =
     \<lparr>words = [(''CAT'', [[[0]]]), (''DOG'', [[[1]]]), (''FISH'', [[[2]]])],
      hwords = [(''CAT'', ([[0]], [1])), (''DOG'', ([[1]], [1])), (''FISH'', ([[2]], [1]))],
      sequences = [[[0]]], self_X = [[0]], lengths = [1], this_word = ''CAT'',
      n_constant = 3, min_n_components = 2, max_n_components = 4,
      random_state = 14, verbose = False\<rparr>"

definition dic_scores :: "int \<Rightarrow> xlengths \<Rightarrow> exn + pyfloat" where
  "dic_scores model d =
     Inr (Fin (if fst d = [[0]] then (if model = 2 then - 50 else if model = 3 then - 40 else - 45)
               else if fst d = [[1]] then (if model = 2 then - 60 else if model = 3 then - 70 else - 50)
               else (if model = 2 then - 80 else if model = 3 then - 90 else - 60)))"

definition own_neg_inf_scores :: "int \<Rightarrow> xlengths \<Rightarrow> exn + pyfloat" where
  "own_neg_inf_scores model d = Inr (if fst d = [[0]] then NInf else Fin (- 60))"

text \<open>
  One label with three one-frame sequences. Training with three states raises on the
  training set of the second fold only.
\<close>

definition three_sequences :: ModelSelector where
  "three_sequences =
     \<lparr>words = [(''CAT'', [[[0]], [[1]], [[2]]])],
      hwords = [(''CAT'', ([[0], [1], [2]], [1, 1, 1]))],
      sequences = [[[0]], [[1]], [[2]]], self_X = [[0], [1], [2]], lengths = [1, 1, 1],
      this_word = ''CAT'', n_constant = 3, min_n_components = 2, max_n_components = 3,
      random_state = 14, verbose = False\<rparr>"

definition second_fold_fails :: "int \<Rightarrow> xlengths \<Rightarrow> exn + int" where
  "second_fold_fails n d = (if n = 3 \<and> fst d = [[0], [2]] then Inl FitError else Inr n)"

definition cv_scores :: "int \<Rightarrow> xlengths \<Rightarrow> exn + pyfloat" where
  "cv_scores model d = Inr (Fin (if model = 2 then - 30 else - 3))"

text \<open>
  A library whose training is deterministic for a seeded estimator and leaves the global
  generator alone, and whose unseeded estimator takes its initial parameters from the
  global generator and advances it. A model is its number of states and the draw (or
  seed) it started from; the score depends on the starting point.
\<close>

definition rng_lib :: "(int \<times> nat, nat) library" where
  "rng_lib =
     \<lparr>hmm_fit = (\<lambda>a d g. case hmm_random_state a of
                    None \<Rightarrow> (Inr (n_components a, g), Suc g)
                  | Some seed \<Rightarrow> (Inr (n_components a, nat seed), g)),
      hmm_score = (\<lambda>model d. Inr (Fin (if snd model = 0 then - 10
                                        else if snd model = 3 then - 5 else - 50))),
      hmm_n_features = (\<lambda>model. 1), kfold_split = kfold3\<rparr>"

section \<open>Comparisons and the selection loops\<close>

lemma fl_lt_irrefl: "\<not> fl_lt a a"
  by (cases a) auto

lemma fl_lt_trans: "fl_lt a b \<Longrightarrow> fl_lt b c \<Longrightarrow> fl_lt a c"
  by (cases a; cases b; cases c) auto

lemma fl_gt_irrefl: "\<not> fl_gt a a"
  by (simp add: fl_gt_def fl_lt_irrefl)

lemma fl_gt_trans: "fl_gt a b \<Longrightarrow> fl_gt b c \<Longrightarrow> fl_gt a c"
  unfolding fl_gt_def by (rule fl_lt_trans)

text \<open>
  The bound a loop ends with is not beaten by any outcome, and the candidate it ends with
  is the first one whose outcome is that bound, unless no outcome beat the initial bound.
\<close>

lemma keep_best_bound:
  assumes irr: "\<And>a. \<not> better a a"
    and tr: "\<And>a b c. better a b \<Longrightarrow> better b c \<Longrightarrow> better a c"
  shows "keep_best better rs (b0, m0) = (b, m) \<Longrightarrow>
         (m = m0 \<or> better m m0) \<and> (\<forall>n v. (n, Inr v) \<in> set rs \<longrightarrow> \<not> better v m)"
proof (induction rs arbitrary: b0 m0)
  case Nil
  then show ?case by simp
next
  case (Cons x rs)
  obtain n r where x: "x = (n, r)" by (cases x)
  show ?case
  proof (cases r)
    case (Inl e)
    with Cons x show ?thesis by auto
  next
    case (Inr v)
    show ?thesis
    proof (cases "better v m0")
      case True
      with Cons.prems x Inr have "keep_best better rs (n, v) = (b, m)" by simp
      from Cons.IH[OF this] have ih: "m = v \<or> better m v" "\<forall>n v. (n, Inr v) \<in> set rs \<longrightarrow> \<not> better v m"
        by auto
      from ih(1) True have "better m m0" using tr by blast
      moreover from ih(1) have "\<not> better v m" using irr tr by blast
      ultimately show ?thesis using ih(2) x Inr by auto
    next
      case False
      with Cons.prems x Inr have "keep_best better rs (b0, m0) = (b, m)" by simp
      from Cons.IH[OF this] have ih: "m = m0 \<or> better m m0" "\<forall>n v. (n, Inr v) \<in> set rs \<longrightarrow> \<not> better v m"
        by auto
      from ih(1) False have "\<not> better v m" using tr by blast
      then show ?thesis using ih x Inr by auto
    qed
  qed
qed

lemma keep_best_first:
  assumes irr: "\<And>a. \<not> better a a"
    and tr: "\<And>a b c. better a b \<Longrightarrow> better b c \<Longrightarrow> better a c"
  shows "keep_best better rs (b0, m0) = (b, m) \<Longrightarrow>
         ((b, m) = (b0, m0) \<and> (\<forall>n v. (n, Inr v) \<in> set rs \<longrightarrow> \<not> better v m0)) \<or>
         (better m m0 \<and> (\<exists>pre post. rs = pre @ (b, Inr m) # post \<and> Inr m \<notin> snd ` set pre))"
proof (induction rs arbitrary: b0 m0)
  case Nil
  then show ?case by simp
next
  case (Cons x rs)
  obtain n r where x: "x = (n, r)" by (cases x)
  show ?case
  proof (cases r)
    case (Inl e)
    with Cons.prems x have "keep_best better rs (b0, m0) = (b, m)" by simp
    from Cons.IH[OF this] show ?thesis
    proof
      assume "(b, m) = (b0, m0) \<and> (\<forall>n v. (n, Inr v) \<in> set rs \<longrightarrow> \<not> better v m0)"
      then show ?thesis using x Inl by auto
    next
      assume "better m m0 \<and> (\<exists>pre post. rs = pre @ (b, Inr m) # post \<and> Inr m \<notin> snd ` set pre)"
      then obtain pre post where bm: "better m m0" and sp: "rs = pre @ (b, Inr m) # post"
        and fr: "Inr m \<notin> snd ` set pre" by blast
      have "x # rs = (x # pre) @ (b, Inr m) # post" using sp by simp
      moreover have "Inr m \<notin> snd ` set (x # pre)" using fr x Inl by auto
      ultimately show ?thesis using bm by blast
    qed
  next
    case (Inr v)
    show ?thesis
    proof (cases "better v m0")
      case True
      with Cons.prems x Inr have run: "keep_best better rs (n, v) = (b, m)" by simp
      from Cons.IH[OF run] show ?thesis
      proof
        assume "(b, m) = (n, v) \<and> (\<forall>n' v'. (n', Inr v') \<in> set rs \<longrightarrow> \<not> better v' v)"
        then have "x # rs = [] @ (b, Inr m) # rs" "better m m0" using x Inr True by auto
        then show ?thesis by (metis empty_iff image_empty list.set(1))
      next
        assume "better m v \<and> (\<exists>pre post. rs = pre @ (b, Inr m) # post \<and> Inr m \<notin> snd ` set pre)"
        then obtain pre post where bm: "better m v" and sp: "rs = pre @ (b, Inr m) # post"
          and fr: "Inr m \<notin> snd ` set pre" by blast
        have "v \<noteq> m" using bm irr by blast
        then have "Inr m \<notin> snd ` set (x # pre)" using fr x Inr by auto
        moreover have "x # rs = (x # pre) @ (b, Inr m) # post" using sp by simp
        moreover have "better m m0" using bm True tr by blast
        ultimately show ?thesis by blast
      qed
    next
      case False
      with Cons.prems x Inr have run: "keep_best better rs (b0, m0) = (b, m)" by simp
      from Cons.IH[OF run] show ?thesis
      proof
        assume "(b, m) = (b0, m0) \<and> (\<forall>n v. (n, Inr v) \<in> set rs \<longrightarrow> \<not> better v m0)"
        then show ?thesis using x Inr False by auto
      next
        assume "better m m0 \<and> (\<exists>pre post. rs = pre @ (b, Inr m) # post \<and> Inr m \<notin> snd ` set pre)"
        then obtain pre post where bm: "better m m0" and sp: "rs = pre @ (b, Inr m) # post"
          and fr: "Inr m \<notin> snd ` set pre" by blast
        have "v \<noteq> m" using bm False by blast
        then have "Inr m \<notin> snd ` set (x # pre)" using fr x Inr by auto
        moreover have "x # rs = (x # pre) @ (b, Inr m) # post" using sp by simp
        ultimately show ?thesis using bm by blast
      qed
    qed
  qed
qed

lemma keep_max_first:
  "keep_best fl_gt rs (b0, m0) = (b, m) \<Longrightarrow>
         ((b, m) = (b0, m0) \<and> (\<forall>n v. (n, Inr v) \<in> set rs \<longrightarrow> \<not> fl_gt v m0)) \<or>
         (fl_gt m m0 \<and> (\<exists>pre post. rs = pre @ (b, Inr m) # post \<and> Inr m \<notin> snd ` set pre))"
  by (rule keep_best_first) (auto simp: fl_gt_irrefl intro: fl_gt_trans)

lemma keep_max_bound:
  "keep_best fl_gt rs (b0, m0) = (b, m) \<Longrightarrow>
         (m = m0 \<or> fl_gt m m0) \<and> (\<forall>n v. (n, Inr v) \<in> set rs \<longrightarrow> \<not> fl_gt v m)"
  by (rule keep_best_bound) (auto simp: fl_gt_irrefl intro: fl_gt_trans)

lemma keep_min_first:
  "keep_best fl_lt rs (b0, m0) = (b, m) \<Longrightarrow>
         ((b, m) = (b0, m0) \<and> (\<forall>n v. (n, Inr v) \<in> set rs \<longrightarrow> \<not> fl_lt v m0)) \<or>
         (fl_lt m m0 \<and> (\<exists>pre post. rs = pre @ (b, Inr m) # post \<and> Inr m \<notin> snd ` set pre))"
  by (rule keep_best_first) (auto simp: fl_lt_irrefl intro: fl_lt_trans)

lemma keep_min_bound:
  "keep_best fl_lt rs (b0, m0) = (b, m) \<Longrightarrow>
         (m = m0 \<or> fl_lt m m0) \<and> (\<forall>n v. (n, Inr v) \<in> set rs \<longrightarrow> \<not> fl_lt v m)"
  by (rule keep_best_bound) (auto simp: fl_lt_irrefl intro: fl_lt_trans)

lemma outcomes_fst: "map fst (outcomes cand ns g) = ns"
  by (induction ns arbitrary: g) (auto split: prod.splits)

lemma outcomes_mem:
  "(n, r) \<in> set (outcomes cand ns g) \<Longrightarrow> \<exists>g0. r = fst (cand n g0)"
proof (induction ns arbitrary: g)
  case Nil
  then show ?case by simp
next
  case (Cons a ns)
  then show ?case
    by (cases "cand a g") (auto, metis fst_conv)
qed

lemma runs_outcomes: "map (\<lambda>(n, g0, r). (n, r)) (runs cand ns g) = outcomes cand ns g"
  by (induction ns arbitrary: g) (auto split: prod.splits)

lemma runs_fst: "map fst (runs cand ns g) = ns"
  by (induction ns arbitrary: g) (auto split: prod.splits)

lemma runs_mem: "(n, g0, r) \<in> set (runs cand ns g) \<Longrightarrow> r = fst (cand n g0)"
proof (induction ns arbitrary: g)
  case Nil
  then show ?case by simp
next
  case (Cons a ns)
  obtain ra ga where step: "cand a g = (ra, ga)" by (cases "cand a g")
  with Cons.prems have "(n, g0, r) = (a, g, ra) \<or> (n, g0, r) \<in> set (runs cand ns ga)" by simp
  then show ?case
  proof
    assume "(n, g0, r) = (a, g, ra)"
    with step show ?thesis by simp
  next
    assume "(n, g0, r) \<in> set (runs cand ns ga)"
    from Cons.IH[OF this] show ?thesis .
  qed
qed

lemma runs_head: "runs cand ns g = (n, g0, r) # post \<Longrightarrow> g0 = g"
  by (cases ns) (auto split: prod.splits)

lemma runs_chain:
  "runs cand ns g = pre @ (n, g0, r) # (n', g1, r') # post \<Longrightarrow> g1 = snd (cand n g0)"
proof (induction ns arbitrary: g pre)
  case Nil
  then show ?case by simp
next
  case (Cons a ns)
  obtain ra ga where step: "cand a g = (ra, ga)" by (cases "cand a g")
  with Cons.prems have eq: "(a, g, ra) # runs cand ns ga = pre @ (n, g0, r) # (n', g1, r') # post"
    by simp
  show ?case
  proof (cases pre)
    case Nil
    with eq have "(a, g, ra) = (n, g0, r)" "runs cand ns ga = (n', g1, r') # post" by simp_all
    with runs_head[of cand ns ga n' g1 r' post] step show ?thesis by auto
  next
    case (Cons p pre')
    with eq have "runs cand ns ga = pre' @ (n, g0, r) # (n', g1, r') # post" by simp
    from Cons.IH[OF this] show ?thesis .
  qed
qed

lemma runs_split:
  assumes "outcomes cand ns g = pre @ (b, v) # post"
  shows "\<exists>pre' g0 post'. runs cand ns g = pre' @ (b, g0, v) # post' \<and>
           snd ` set pre = (\<lambda>x. snd (snd x)) ` set pre'"
proof -
  from assms have "map (\<lambda>(n, g0, r). (n, r)) (runs cand ns g) = pre @ (b, v) # post"
    by (simp add: runs_outcomes)
  then obtain pre' x post' where sp: "runs cand ns g = pre' @ x # post'"
    and p: "map (\<lambda>(n, g0, r). (n, r)) pre' = pre" and x: "(\<lambda>(n, g0, r). (n, r)) x = (b, v)"
    by (auto simp: map_eq_append_conv map_eq_Cons_conv)
  obtain g0 where "x = (b, g0, v)" using x by (cases x) auto
  moreover have "snd ` set pre = (\<lambda>x. snd (snd x)) ` set pre'"
  proof -
    have "snd ` set pre = snd ` set (map (\<lambda>(n, g0, r). (n, r)) pre')" using p by simp
    also have "\<dots> = (\<lambda>x. snd (snd x)) ` set pre'" by (force simp: image_iff split: prod.splits)
    finally show ?thesis .
  qed
  ultimately show ?thesis using sp by blast
qed

lemma runs_values:
  "(n, Inr b) \<in> set (outcomes cand ns g) \<longleftrightarrow> (\<exists>g0. (n, g0, Inr b) \<in> set (runs cand ns g))"
proof -
  have "set (outcomes cand ns g) = (\<lambda>(n, g0, r). (n, r)) ` set (runs cand ns g)"
    using runs_outcomes[of cand ns g] by (metis set_map)
  then show ?thesis by (force simp: image_iff split: prod.splits)
qed

lemma bic_loop_keep_best:
  "bic_loop L s ns (b0, m0, g) = (b, m, g') \<Longrightarrow>
   keep_best fl_lt (outcomes (bic_candidate L s) ns g) (b0, m0) = (b, m)"
proof (induction ns arbitrary: b0 m0 g)
  case Nil
  then show ?case by simp
next
  case (Cons n ns)
  then show ?case
    by (cases "bic_candidate L s n g") (auto split: sum.splits if_splits)
qed

lemma dic_loop_keep_best:
  "dic_loop L s ns (b0, m0, g) = (b, m, g') \<Longrightarrow>
   keep_best fl_gt (outcomes (dic_candidate L s) ns g) (b0, m0) = (b, m)"
proof (induction ns arbitrary: b0 m0 g)
  case Nil
  then show ?case by simp
next
  case (Cons n ns)
  then show ?case
    by (cases "dic_candidate L s n g") (auto split: sum.splits if_splits)
qed

lemma cv_loop_keep_best:
  "cv_loop L s ns (b0, m0, g) = (b, m, g') \<Longrightarrow>
   keep_best fl_gt (outcomes (cv_candidate L s) ns g) (b0, m0) = (b, m)"
proof (induction ns arbitrary: b0 m0 g)
  case Nil
  then show ?case by simp
next
  case (Cons n ns)
  then show ?case
    by (cases "cv_candidate L s n g") (auto split: sum.splits if_splits)
qed

section \<open>The recognizer\<close>

lemma score_words_keep_best:
  "score_words L d models (pd, mx, bw) = (pd', mx', bw') \<Longrightarrow>
   keep_best fl_gt (word_scores L d models) (bw, mx) = (bw', mx')"
proof (induction models arbitrary: pd mx bw)
  case Nil
  then show ?case by (simp add: word_scores_def)
next
  case (Cons x models)
  obtain w m where x: "x = (w, m)" by (cases x)
  from Cons.prems x show ?case
    using Cons.IH by (auto simp: word_scores_def Let_def split: if_splits)
qed

lemma score_words_other:
  "score_words L d models (pd, mx, bw) = (pd', mx', bw') \<Longrightarrow> w \<notin> fst ` set models \<Longrightarrow>
   map_of pd' w = map_of pd w"
proof (induction models arbitrary: pd mx bw)
  case Nil
  then show ?case by simp
next
  case (Cons x models)
  obtain w' m where x: "x = (w', m)" by (cases x)
  from Cons.prems x have ne: "w \<noteq> w'" and notin: "w \<notin> fst ` set models" by auto
  from Cons.prems(1) x obtain mx1 bw1 where
    "score_words L d models (AList.update w' (try_score L m d) pd, mx1, bw1) = (pd', mx', bw')"
    by (auto simp: Let_def split: if_splits)
  from Cons.IH[OF this notin] ne show ?case by (simp add: update_conv')
qed

lemma score_words_entry:
  "score_words L d models (pd, mx, bw) = (pd', mx', bw') \<Longrightarrow> distinct (map fst models) \<Longrightarrow>
   (w, m) \<in> set models \<Longrightarrow> map_of pd' w = Some (try_score L m d)"
proof (induction models arbitrary: pd mx bw)
  case Nil
  then show ?case by simp
next
  case (Cons x models)
  obtain w' m' where x: "x = (w', m')" by (cases x)
  from Cons.prems(1) x obtain mx1 bw1 where
    run: "score_words L d models (AList.update w' (try_score L m' d) pd, mx1, bw1) = (pd', mx', bw')"
    by (auto simp: Let_def split: if_splits)
  from Cons.prems(2) x have dist: "distinct (map fst models)" and fresh: "w' \<notin> fst ` set models"
    by auto
  show ?case
  proof (cases "(w, m) = (w', m')")
    case True
    with score_words_other[OF run fresh] show ?thesis by (simp add: update_conv')
  next
    case False
    with Cons.prems(3) x have "(w, m) \<in> set models" by auto
    from Cons.IH[OF run dist this] show ?thesis .
  qed
qed

lemma score_words_dom:
  "score_words L d models ([], mx, bw) = (pd', mx', bw') \<Longrightarrow> map_of pd' w = Some l \<Longrightarrow>
   w \<in> fst ` set models"
  using score_words_other[of L d models "[]" mx bw pd' mx' bw' w] by fastforce

lemma recognize_loop_nth:
  "recognize_loop L models items (P, G, bw) = (P', G') \<Longrightarrow> length P = length G \<Longrightarrow>
   length P' = length P + length items \<and> length G' = length P' \<and>
   (\<forall>j < length P. P' ! j = P ! j \<and> G' ! j = G ! j) \<and>
   (\<forall>i < length items. \<exists>bw0 mx.
      score_words L (snd (items ! i)) models ([], NInf, bw0) =
        (P' ! (length P + i), mx, G' ! (length P + i)))"
proof (induction items arbitrary: P G bw)
  case Nil
  then show ?case by simp
next
  case (Cons x items)
  obtain key d where x: "x = (key, d)" by (cases x)
  obtain pd mx bw1 where sw: "score_words L d models ([], NInf, bw) = (pd, mx, bw1)"
    by (cases "score_words L d models ([], NInf, bw)") auto
  with Cons.prems x have run: "recognize_loop L models items (P @ [pd], G @ [bw1], bw1) = (P', G')"
    by simp
  have len: "length (P @ [pd]) = length (G @ [bw1])" using Cons.prems(2) by simp
  from Cons.IH[OF run len] have
    l1: "length P' = length P + 1 + length items" and l2: "length G' = length P'" and
    pre: "\<forall>j < length P + 1. P' ! j = (P @ [pd]) ! j \<and> G' ! j = (G @ [bw1]) ! j" and
    rest: "\<forall>i < length items. \<exists>bw0 mx.
      score_words L (snd (items ! i)) models ([], NInf, bw0) =
        (P' ! (length P + 1 + i), mx, G' ! (length P + 1 + i))"
    by auto
  have here: "P' ! length P = pd" "G' ! length P = bw1"
    using pre Cons.prems(2) by (auto simp: nth_append)
  have old: "\<forall>j < length P. P' ! j = P ! j \<and> G' ! j = G ! j"
    using pre Cons.prems(2) by (auto simp: nth_append)
  have all: "\<exists>bw0 mx. score_words L (snd ((x # items) ! i)) models ([], NInf, bw0) =
        (P' ! (length P + i), mx, G' ! (length P + i))" if "i < length (x # items)" for i
  proof (cases i)
    case 0
    then show ?thesis using sw here x by auto
  next
    case (Suc k)
    with that have "k < length items" by simp
    with rest Suc show ?thesis by auto
  qed
  show ?case using l1 l2 old all by auto
qed

lemma word_scores_fst: "map fst (word_scores L d models) = map fst models"
  by (induction models) (auto simp: word_scores_def)

lemma word_scores_mem:
  "(w, Inr v) \<in> set (word_scores L d models) \<longleftrightarrow> (\<exists>m. (w, m) \<in> set models \<and> v = try_score L m d)"
  by (auto simp: word_scores_def)

lemma score_words_guess:
  assumes dist: "distinct (map fst models)"
    and run: "score_words L d models ([], NInf, bw) = (pd, mx, g)"
    and some: "map_of pd w = Some l" and gt: "fl_gt l NInf"
  shows "\<exists>pre post score. map fst models = pre @ g # post \<and>
           map_of pd g = Some score \<and>
           (\<forall>w' l'. map_of pd w' = Some l' \<longrightarrow> \<not> fl_gt l' score) \<and>
           (\<forall>w' \<in> set pre. map_of pd w' \<noteq> Some score)"
proof -
  have entry: "map_of pd w' = Some (try_score L m d)" if "(w', m) \<in> set models" for w' m
    using score_words_entry[OF run dist that] .
  have kb: "keep_best fl_gt (word_scores L d models) (bw, NInf) = (g, mx)"
    using score_words_keep_best[OF run] .
  from score_words_dom[OF run some] obtain m where wm: "(w, m) \<in> set models" by auto
  with entry some have "l = try_score L m d" by fastforce
  with wm have inS: "(w, Inr l) \<in> set (word_scores L d models)" by (auto simp: word_scores_mem)
  from keep_max_first[OF kb] inS gt
  obtain pre post where sp: "word_scores L d models = pre @ (g, Inr mx) # post"
    and fr: "Inr mx \<notin> snd ` set pre" by blast
  from keep_max_bound[OF kb]
  have bound: "\<forall>n v. (n, Inr v) \<in> set (word_scores L d models) \<longrightarrow> \<not> fl_gt v mx" by blast
  have names: "map fst models = map fst pre @ g # map fst post"
    using sp word_scores_fst[of L d models] by (metis fst_conv list.simps(9) map_append)
  have "(g, Inr mx) \<in> set (word_scores L d models)" using sp by simp
  then obtain mg where mg: "(g, mg) \<in> set models" "mx = try_score L mg d"
    by (auto simp: word_scores_mem)
  then have best: "map_of pd g = Some mx" using entry by simp
  have top: "\<not> fl_gt l' mx" if "map_of pd w' = Some l'" for w' l'
  proof -
    from score_words_dom[OF run that] obtain m' where m': "(w', m') \<in> set models" by auto
    with entry that have "l' = try_score L m' d" by fastforce
    with m' have "(w', Inr l') \<in> set (word_scores L d models)" by (auto simp: word_scores_mem)
    with bound show ?thesis by blast
  qed
  have first: "map_of pd w' \<noteq> Some mx" if "w' \<in> set (map fst pre)" for w'
  proof
    assume eq: "map_of pd w' = Some mx"
    from that obtain r where r: "(w', r) \<in> set pre" by auto
    then have "(w', r) \<in> set (word_scores L d models)" using sp by simp
    then obtain m' where m': "(w', m') \<in> set models" "r = Inr (try_score L m' d)"
      by (auto simp: word_scores_def)
    with entry eq have "r = Inr mx" by fastforce
    with r fr show False by force
  qed
  show ?thesis using names best top first by blast
qed

lemma two_items_result:
  "recognize score_lib two_models two_items =
     ([[(''CAT'', Fin (- 50.2)), (''DOG'', Fin (- 30.1))], [(''CAT'', NInf), (''DOG'', NInf)]],
      [''DOG'', ''DOG''])"
  by (simp add: recognize_def two_models_def two_items_def score_lib_def try_score_def
      cat_model_def dog_model_def fl_gt_def Let_def)

text \<open>
  Claim C1, as amended. For every models table and every test set, \<open>probabilities\<close>
  and \<open>guesses\<close> have one entry per test item. For models with distinct labels and every
  test item \<open>i\<close> for which some label has a recorded score strictly greater than
  \<open>-inf\<close>: \<open>guesses[i]\<close> is a label of \<open>models\<close>, no label has a strictly greater
  score in \<open>probabilities[i]\<close>, and no label before it in the order of \<open>models\<close> has
  the same score (the first-seen label wins a tie).
\<close>

theorem recognize_guess_first_maximum:
  assumes "recognize L models X_all = (probabilities, guesses)"
  shows "length probabilities = length X_all \<and> length guesses = length X_all \<and>
         (\<forall>i w l. distinct (map fst models) \<and> i < length X_all \<and>
              map_of (probabilities ! i) w = Some l \<and> fl_gt l NInf \<longrightarrow>
            (\<exists>pre post score. map fst models = pre @ guesses ! i # post \<and>
               map_of (probabilities ! i) (guesses ! i) = Some score \<and>
               (\<forall>w' l'. map_of (probabilities ! i) w' = Some l' \<longrightarrow> \<not> fl_gt l' score) \<and>
               (\<forall>w' \<in> set pre. map_of (probabilities ! i) w' \<noteq> Some score)))"
proof -
  from assms have run: "recognize_loop L models X_all ([], [], '''') = (probabilities, guesses)"
    by (simp add: recognize_def)
  from recognize_loop_nth[OF run] have
    len: "length probabilities = length X_all" "length guesses = length X_all" and
    items: "\<forall>i < length X_all. \<exists>bw0 mx.
      score_words L (snd (X_all ! i)) models ([], NInf, bw0) = (probabilities ! i, mx, guesses ! i)"
    by auto
  have item: "\<exists>pre post score. map fst models = pre @ guesses ! i # post \<and>
               map_of (probabilities ! i) (guesses ! i) = Some score \<and>
               (\<forall>w' l'. map_of (probabilities ! i) w' = Some l' \<longrightarrow> \<not> fl_gt l' score) \<and>
               (\<forall>w' \<in> set pre. map_of (probabilities ! i) w' \<noteq> Some score)"
    if "distinct (map fst models)" "i < length X_all"
      "map_of (probabilities ! i) w = Some l" "fl_gt l NInf" for i w l
  proof -
    from items that(2) obtain bw0 mx where
      sw: "score_words L (snd (X_all ! i)) models ([], NInf, bw0) = (probabilities ! i, mx, guesses ! i)"
      by blast
    from score_words_guess[OF that(1) sw that(3,4)] show ?thesis .
  qed
  show ?thesis using len item by blast
qed

theorem recognize_guess_first_maximum_witness:
  "recognize score_lib two_models two_items =
     ([[(''CAT'', Fin (- 50.2)), (''DOG'', Fin (- 30.1))], [(''CAT'', NInf), (''DOG'', NInf)]],
      [''DOG'', ''DOG'']) \<and>
   length [[(''CAT'', Fin (- 50.2)), (''DOG'', Fin (- 30.1))], [(''CAT'', NInf), (''DOG'', NInf)]] =
     length two_items \<and>
   length [''DOG'', ''DOG''] = length two_items \<and>
   distinct (map fst two_models) \<and> (0::nat) < length two_items \<and>
   fl_gt (Fin (- 50.2)) NInf \<and>
   (\<exists>pre post score. map fst two_models = pre @ ''DOG'' # post \<and>
      map_of [(''CAT'', Fin (- 50.2)), (''DOG'', Fin (- 30.1))] ''DOG'' = Some score \<and>
      (\<forall>w' l'. map_of [(''CAT'', Fin (- 50.2)), (''DOG'', Fin (- 30.1))] w' = Some l' \<longrightarrow>
         \<not> fl_gt l' score) \<and>
      (\<forall>w' \<in> set pre. map_of [(''CAT'', Fin (- 50.2)), (''DOG'', Fin (- 30.1))] w' \<noteq> Some score)) \<and>
   recognize score_lib two_models [] = ([], [])"
proof -
  note main = recognize_guess_first_maximum[OF two_items_result]
  have h1: "distinct (map fst two_models)" by (simp add: two_models_def)
  have h3: "(0::nat) < length two_items" by (simp add: two_items_def)
  have h4: "map_of ([[(''CAT'', Fin (- 50.2)), (''DOG'', Fin (- 30.1))],
      [(''CAT'', NInf), (''DOG'', NInf)]] ! 0) ''CAT'' = Some (Fin (- 50.2))" by simp
  have h5: "fl_gt (Fin (- 50.2)) NInf" by (simp add: fl_gt_def)
  from main have len:
    "length [[(''CAT'', Fin (- 50.2)), (''DOG'', Fin (- 30.1))], [(''CAT'', NInf), (''DOG'', NInf)]] =
     length two_items" "length [''DOG'', ''DOG''] = length two_items" by blast+
  from main h1 h3 h4 h5 have item:
    "\<exists>pre post score. map fst two_models =
        pre @ [''DOG'', ''DOG''] ! 0 # post \<and>
      map_of ([[(''CAT'', Fin (- 50.2)), (''DOG'', Fin (- 30.1))], [(''CAT'', NInf), (''DOG'', NInf)]] ! 0)
        ([''DOG'', ''DOG''] ! 0) = Some score \<and>
      (\<forall>w' l'. map_of ([[(''CAT'', Fin (- 50.2)), (''DOG'', Fin (- 30.1))],
           [(''CAT'', NInf), (''DOG'', NInf)]] ! 0) w' = Some l' \<longrightarrow> \<not> fl_gt l' score) \<and>
      (\<forall>w' \<in> set pre. map_of ([[(''CAT'', Fin (- 50.2)), (''DOG'', Fin (- 30.1))],
           [(''CAT'', NInf), (''DOG'', NInf)]] ! 0) w' \<noteq> Some score)"
    by blast
  have e: "recognize score_lib two_models [] = ([], [])" by (simp add: recognize_def)
  show ?thesis using two_items_result len h1 h3 h5 item e by simp
qed

text \<open>
  Claim C1 as stated fails when no score of an item exceeds \<open>-inf\<close>. With one model
  that cannot score the item, the guess is the initial empty string, which is not a label
  of \<open>probabilities[0]\<close>. With two models and a second item that neither can score, the
  guess for the second item is \<open>DOG\<close>, left over from the first item, although all scores
  tie and \<open>CAT\<close> is the first-seen label.
\<close>

theorem recognize_counterexample:
  "recognize score_lib [(''CAT'', Some cat_model)] [(1, ([[0], [1]], [2]))] =
     ([[(''CAT'', NInf)]], ['''']) \<and>
   recognize score_lib two_models two_items =
     ([[(''CAT'', Fin (- 50.2)), (''DOG'', Fin (- 30.1))], [(''CAT'', NInf), (''DOG'', NInf)]],
      [''DOG'', ''DOG''])"
  by (simp add: recognize_def two_models_def two_items_def score_lib_def try_score_def
      cat_model_def dog_model_def fl_gt_def Let_def)

text \<open>
  Claim C7. For models with distinct labels, every test item \<open>i\<close> and every entry
  \<open>(word, model)\<close> of \<open>models\<close>: if scoring the item against the model raises, the
  score recorded for \<open>word\<close> in \<open>probabilities[i]\<close> is \<open>-inf\<close>, and the item is
  processed all the same: both results have one entry per test item.
\<close>

theorem recognize_failure_neg_inf:
  assumes "distinct (map fst models)"
    and "recognize L models X_all = (probabilities, guesses)"
    and "i < length X_all"
    and "(word, model) \<in> set models"
    and "model_score L model (snd (X_all ! i)) = Inl e"
  shows "length probabilities = length X_all \<and> length guesses = length X_all \<and>
         map_of (probabilities ! i) word = Some NInf"
proof -
  from assms(2) have run: "recognize_loop L models X_all ([], [], '''') = (probabilities, guesses)"
    by (simp add: recognize_def)
  from recognize_loop_nth[OF run] assms(3) obtain bw0 mx where
    len: "length probabilities = length X_all" "length guesses = length X_all" and
    sw: "score_words L (snd (X_all ! i)) models ([], NInf, bw0) = (probabilities ! i, mx, guesses ! i)"
    by fastforce
  have "try_score L model (snd (X_all ! i)) = NInf" using assms(5) by (simp add: try_score_def)
  with score_words_entry[OF sw assms(1,4)] len show ?thesis by simp
qed

theorem recognize_failure_neg_inf_witness:
  "distinct (map fst two_models) \<and>
   recognize score_lib two_models two_items =
     ([[(''CAT'', Fin (- 50.2)), (''DOG'', Fin (- 30.1))], [(''CAT'', NInf), (''DOG'', NInf)]],
      [''DOG'', ''DOG'']) \<and>
   (1::nat) < length two_items \<and>
   (''CAT'', Some cat_model) \<in> set two_models \<and>
   model_score score_lib (Some cat_model) (snd (two_items ! 1)) = Inl ScoreError \<and>
   map_of [(''CAT'', NInf), (''DOG'', NInf)] ''CAT'' = Some NInf"
proof -
  have h1: "distinct (map fst two_models)" by (simp add: two_models_def)
  have h2: "recognize score_lib two_models two_items =
     ([[(''CAT'', Fin (- 50.2)), (''DOG'', Fin (- 30.1))], [(''CAT'', NInf), (''DOG'', NInf)]],
      [''DOG'', ''DOG''])" by (rule two_items_result)
  have h3: "(1::nat) < length two_items" by (simp add: two_items_def)
  have h4: "(''CAT'', Some cat_model) \<in> set two_models" by (simp add: two_models_def)
  have h5: "model_score score_lib (Some cat_model) (snd (two_items ! 1)) = Inl ScoreError"
    by (simp add: two_items_def score_lib_def cat_model_def)
  from recognize_failure_neg_inf[OF h1 h2 h3 h4 h5] h1 h2 h3 h4 h5 show ?thesis by simp
qed

section \<open>The selectors\<close>

text \<open>
  Claim C8. \<open>base_model(num_states)\<close> never raises: when training raises it returns
  \<open>None\<close>, when training returns a model it returns that model.
\<close>

theorem base_model_returns_none_on_failure:
  "(\<forall>e. fst (base_model L s num_states g) \<noteq> Inl e) \<and>
   (\<forall>e. fst (hmm_fit L \<lparr>n_components = num_states, n_iter = 1000,
                        hmm_random_state = Some (random_state s)\<rparr> (self_X s, lengths s) g) = Inl e
      \<longrightarrow> fst (base_model L s num_states g) = Inr None) \<and>
   (\<forall>m. fst (hmm_fit L \<lparr>n_components = num_states, n_iter = 1000,
                        hmm_random_state = Some (random_state s)\<rparr> (self_X s, lengths s) g) = Inr m
      \<longrightarrow> fst (base_model L s num_states g) = Inr (Some m))"
  by (auto simp: base_model_def split: prod.splits sum.splits)

theorem base_model_returns_none_on_failure_witness:
  "fst (hmm_fit bic_lib \<lparr>n_components = 0, n_iter = 1000,
          hmm_random_state = Some (random_state cat_selector)\<rparr>
          (self_X cat_selector, lengths cat_selector) ()) = Inl FitError \<and>
   fst (base_model bic_lib cat_selector 0 ()) = Inr None \<and>
   fst (hmm_fit bic_lib \<lparr>n_components = 3, n_iter = 1000,
          hmm_random_state = Some (random_state cat_selector)\<rparr>
          (self_X cat_selector, lengths cat_selector) ()) = Inr 3 \<and>
   fst (base_model bic_lib cat_selector 3 ()) = Inr (Some 3)"
proof -
  have f0: "fst (hmm_fit bic_lib \<lparr>n_components = 0, n_iter = 1000,
          hmm_random_state = Some (random_state cat_selector)\<rparr>
          (self_X cat_selector, lengths cat_selector) ()) = Inl FitError"
    by (simp add: bic_lib_def table_lib_def positive_fit_def)
  have f3: "fst (hmm_fit bic_lib \<lparr>n_components = 3, n_iter = 1000,
          hmm_random_state = Some (random_state cat_selector)\<rparr>
          (self_X cat_selector, lengths cat_selector) ()) = Inr 3"
    by (simp add: bic_lib_def table_lib_def positive_fit_def)
  from base_model_returns_none_on_failure[of bic_lib cat_selector 0 "()"] f0
  have b0: "fst (base_model bic_lib cat_selector 0 ()) = Inr None" by blast
  from base_model_returns_none_on_failure[of bic_lib cat_selector 3 "()"] f3
  have b3: "fst (base_model bic_lib cat_selector 3 ()) = Inr (Some 3)" by blast
  show ?thesis using f0 f3 b0 b3 by simp
qed

lemma upto_2_4: "[2..4::int] = [2, 3, 4]"
  by (simp add: upto_rec1)

lemma ln_2_bounds: "1 / 2 \<le> ln (2::real)" "ln (2::real) \<le> 1"
proof -
  have "ln (1 / 2 :: real) \<le> 1 / 2 - 1" by (rule ln_le_minus_one) simp
  moreover have "ln (1 / 2 :: real) = - ln 2" by (simp add: ln_div)
  ultimately show "1 / 2 \<le> ln (2::real)" by simp
  have "ln (2::real) \<le> 2 - 1" by (rule ln_le_minus_one) simp
  then show "ln (2::real) \<le> 1" by simp
qed

lemma bic_lib_candidates:
  "bic_candidate bic_lib two_frames 2 () = (Inr (Fin (120 + 7 * ln 2)), ())"
  "bic_candidate bic_lib two_frames 3 () = (Inr (Fin (100 + 26 * ln 2)), ())"
  "bic_candidate bic_lib two_frames 4 () = (Inr (Fin (90 + 63 * ln 2)), ())"
  by (simp_all add: two_frames_def bic_lib_def table_lib_def positive_fit_def
      bic_scores_def bic_candidate_def GaussianHMM_def bic_p_def np_log_def Let_def)

lemma bic_lib_comparisons:
  "fl_lt (Fin (120 + 7 * ln 2)) PInf"
  "fl_lt (Fin (100 + 26 * ln 2)) (Fin (120 + 7 * ln 2))"
  "\<not> fl_lt (Fin (90 + 63 * ln 2)) (Fin (100 + 26 * ln 2))"
  "\<not> fl_lt (Fin (120 + 7 * ln 2)) (Fin (100 + 26 * ln 2))"
  using ln_2_bounds by simp_all

lemma two_frames_range: "[min_n_components two_frames..max_n_components two_frames] = [2, 3, 4]"
  by (simp add: two_frames_def upto_2_4)

lemma bic_lib_loop:
  "bic_loop bic_lib two_frames [min_n_components two_frames..max_n_components two_frames]
     (0, PInf, ()) = (3, Fin (100 + 26 * ln 2), ())"
  unfolding two_frames_range
  by (simp only: bic_loop.simps bic_lib_candidates bic_lib_comparisons prod.case sum.case
      if_True if_False)

lemma bic_lib_runs:
  "bic_runs bic_lib two_frames () =
     [(2, (), Inr (Fin (120 + 7 * ln 2))), (3, (), Inr (Fin (100 + 26 * ln 2))),
      (4, (), Inr (Fin (90 + 63 * ln 2)))]"
  unfolding bic_runs_def two_frames_range by (simp add: bic_lib_candidates)

text \<open>
  Claim C2. The claim gives the free-parameter count as \<open>n*n + 2*n*d - 1\<close>. Line 84
  computes \<open>n ** (+2) * n * d - 1\<close>, the cube of \<open>n\<close> times \<open>d\<close> minus one: for
  \<open>n = 2\<close> and \<open>d = 2\<close> that is 15, where the claim's formula gives 11. In the
  example, the candidate with four states and one feature, scoring \<open>-45\<close> on two frames,
  gets the BIC \<open>90 + 63 * log 2\<close>, where the claim's formula has the factor 23.
\<close>

theorem bic_p_is_cubic:
  "bic_p 2 2 = 15 \<and> bic_p 2 2 \<noteq> 2 * 2 + 2 * 2 * 2 - 1 \<and>
   (\<forall>n d. bic_p n d = n ^ 3 * d - 1) \<and>
   hmm_n_features bic_lib 4 = 1 \<and> bic_p 4 1 = 63 \<and> bic_p 4 1 \<noteq> 4 * 4 + 2 * 4 * 1 - 1 \<and>
   fst (bic_candidate bic_lib two_frames 4 ()) = Inr (Fin (- 2 * (- 45) + 63 * ln 2))"
proof -
  have "hmm_n_features bic_lib 4 = 1" by (simp add: bic_lib_def table_lib_def)
  then show ?thesis
    by (simp add: bic_p_def power3_eq_cube power2_eq_square bic_lib_candidates)
qed

lemma bic_candidate_fit_raises:
  "fst (hmm_fit L (GaussianHMM n) (self_X s, lengths s) g0) = Inl e \<Longrightarrow>
   fst (bic_candidate L s n g0) = Inl e"
  by (auto simp: bic_candidate_def split: prod.splits sum.splits)

lemma bic_candidate_score_raises:
  "fst (hmm_fit L (GaussianHMM n) (self_X s, lengths s) g0) = Inr model \<Longrightarrow>
   hmm_score L model (self_X s, lengths s) = Inl e \<Longrightarrow>
   fst (bic_candidate L s n g0) = Inl e"
  by (auto simp: bic_candidate_def split: prod.splits sum.splits)

lemma bic_candidate_scores:
  "fst (hmm_fit L (GaussianHMM n) (self_X s, lengths s) g0) = Inr model \<Longrightarrow>
   hmm_score L model (self_X s, lengths s) = Inr logL \<Longrightarrow>
   fst (bic_candidate L s n g0) =
     Inr (fl_add (fl_mul (Fin (- 2)) logL)
            (fl_mul (Fin (of_int (bic_p n (hmm_n_features L model))))
               (np_log (length (self_X s)))))"
  by (auto simp: bic_candidate_def Let_def split: prod.splits sum.splits)

lemma bic_candidate_state:
  "snd (bic_candidate L s n g0) = snd (hmm_fit L (GaussianHMM n) (self_X s, lengths s) g0)"
  by (auto simp: bic_candidate_def Let_def split: prod.splits sum.splits)

text \<open>
  Claim C3, as amended. \<open>SelectorBIC.select\<close> returns \<open>base_model(best)\<close> for the
  \<open>best\<close> its loop ends with. The loop runs every candidate of
  \<open>[min_n_components, max_n_components]\<close> once, in order, the first on the generator as
  \<open>select\<close> found it and each next one on the generator as the training of the one
  before left it. A candidate whose training or scoring raises has no value. A candidate
  that trains and scores has the value \<open>-2*logL + p*log(N)\<close>, with \<open>p\<close> as line 84
  computes it, and that value is not strictly below the final \<open>min_BIC\<close>. If some
  candidate has a BIC strictly below \<open>+inf\<close>, then \<open>best\<close> is the first candidate
  whose BIC is \<open>min_BIC\<close>. If none has (no candidate trained and scored, or every BIC is
  \<open>+inf\<close> or NaN), \<open>best\<close> remains 0, and the result is \<open>None\<close> when training
  with 0 states raises.
\<close>

theorem SelectorBIC_select_minimum:
  assumes "bic_loop L s [min_n_components s..max_n_components s] (0, PInf, g) = (best, min_BIC, g')"
  shows "SelectorBIC_select L s g = base_model L s best g' \<and>
     map fst (bic_runs L s g) = [min_n_components s..max_n_components s] \<and>
     (\<forall>n g0 r post. bic_runs L s g = (n, g0, r) # post \<longrightarrow> g0 = g) \<and>
     (\<forall>pre n g0 r n' g1 r' post. bic_runs L s g = pre @ (n, g0, r) # (n', g1, r') # post \<longrightarrow>
        g1 = snd (hmm_fit L (GaussianHMM n) (self_X s, lengths s) g0)) \<and>
     (\<forall>n g0 r. (n, g0, r) \<in> set (bic_runs L s g) \<longrightarrow>
        (\<forall>e. fst (hmm_fit L (GaussianHMM n) (self_X s, lengths s) g0) = Inl e \<longrightarrow> r = Inl e) \<and>
        (\<forall>model e. fst (hmm_fit L (GaussianHMM n) (self_X s, lengths s) g0) = Inr model \<and>
           hmm_score L model (self_X s, lengths s) = Inl e \<longrightarrow> r = Inl e) \<and>
        (\<forall>model logL. fst (hmm_fit L (GaussianHMM n) (self_X s, lengths s) g0) = Inr model \<and>
           hmm_score L model (self_X s, lengths s) = Inr logL \<longrightarrow>
           r = Inr (fl_add (fl_mul (Fin (- 2)) logL)
                      (fl_mul (Fin (of_int (bic_p n (hmm_n_features L model))))
                         (np_log (length (self_X s))))) \<and>
           \<not> fl_lt (fl_add (fl_mul (Fin (- 2)) logL)
                      (fl_mul (Fin (of_int (bic_p n (hmm_n_features L model))))
                         (np_log (length (self_X s))))) min_BIC)) \<and>
     ((\<exists>n g0 b. (n, g0, Inr b) \<in> set (bic_runs L s g) \<and> fl_lt b PInf) \<longrightarrow>
        fl_lt min_BIC PInf \<and>
        (\<exists>pre g0 post. bic_runs L s g = pre @ (best, g0, Inr min_BIC) # post \<and>
           (\<forall>x \<in> set pre. snd (snd x) \<noteq> Inr min_BIC))) \<and>
     ((\<forall>n g0 b. (n, g0, Inr b) \<in> set (bic_runs L s g) \<longrightarrow> \<not> fl_lt b PInf) \<longrightarrow>
        best = 0 \<and> min_BIC = PInf \<and>
        ((\<exists>e. fst (hmm_fit L \<lparr>n_components = 0, n_iter = 1000,
                       hmm_random_state = Some (random_state s)\<rparr> (self_X s, lengths s) g') = Inl e)
           \<longrightarrow> fst (SelectorBIC_select L s g) = Inr None))"
proof -
  let ?ns = "[min_n_components s..max_n_components s]"
  have sel: "SelectorBIC_select L s g = base_model L s best g'"
    using assms by (simp add: SelectorBIC_select_def)
  have kb: "keep_best fl_lt (outcomes (bic_candidate L s) ?ns g) (0, PInf) = (best, min_BIC)"
    using bic_loop_keep_best[OF assms] .
  have names: "map fst (bic_runs L s g) = ?ns"
    by (simp add: bic_runs_def runs_fst)
  have head: "g0 = g" if "bic_runs L s g = (n, g0, r) # post" for n g0 r post
    using that runs_head unfolding bic_runs_def by fast
  have chain: "g1 = snd (hmm_fit L (GaussianHMM n) (self_X s, lengths s) g0)"
    if "bic_runs L s g = pre @ (n, g0, r) # (n', g1, r') # post" for pre n g0 r n' g1 r' post
    using runs_chain[OF that[unfolded bic_runs_def]] by (simp add: bic_candidate_state)
  have low: "\<not> fl_lt b min_BIC" if "(n, g0, Inr b) \<in> set (bic_runs L s g)" for n g0 b
  proof -
    from that have "(n, Inr b) \<in> set (outcomes (bic_candidate L s) ?ns g)"
      unfolding bic_runs_def using runs_values by fast
    with keep_min_bound[OF kb] show ?thesis by blast
  qed
  have entry: "(\<forall>e. fst (hmm_fit L (GaussianHMM n) (self_X s, lengths s) g0) = Inl e \<longrightarrow> r = Inl e) \<and>
        (\<forall>model e. fst (hmm_fit L (GaussianHMM n) (self_X s, lengths s) g0) = Inr model \<and>
           hmm_score L model (self_X s, lengths s) = Inl e \<longrightarrow> r = Inl e) \<and>
        (\<forall>model logL. fst (hmm_fit L (GaussianHMM n) (self_X s, lengths s) g0) = Inr model \<and>
           hmm_score L model (self_X s, lengths s) = Inr logL \<longrightarrow>
           r = Inr (fl_add (fl_mul (Fin (- 2)) logL)
                      (fl_mul (Fin (of_int (bic_p n (hmm_n_features L model))))
                         (np_log (length (self_X s))))) \<and>
           \<not> fl_lt (fl_add (fl_mul (Fin (- 2)) logL)
                      (fl_mul (Fin (of_int (bic_p n (hmm_n_features L model))))
                         (np_log (length (self_X s))))) min_BIC)"
    if mem: "(n, g0, r) \<in> set (bic_runs L s g)" for n g0 r
  proof -
    have r: "r = fst (bic_candidate L s n g0)"
      using runs_mem[OF mem[unfolded bic_runs_def]] .
    have a: "r = Inl e" if "fst (hmm_fit L (GaussianHMM n) (self_X s, lengths s) g0) = Inl e" for e
      using r bic_candidate_fit_raises[OF that] by simp
    have b: "r = Inl e"
      if "fst (hmm_fit L (GaussianHMM n) (self_X s, lengths s) g0) = Inr model"
        "hmm_score L model (self_X s, lengths s) = Inl e" for model e
      using r bic_candidate_score_raises[OF that] by simp
    have c: "r = Inr (fl_add (fl_mul (Fin (- 2)) logL)
                      (fl_mul (Fin (of_int (bic_p n (hmm_n_features L model))))
                         (np_log (length (self_X s))))) \<and>
           \<not> fl_lt (fl_add (fl_mul (Fin (- 2)) logL)
                      (fl_mul (Fin (of_int (bic_p n (hmm_n_features L model))))
                         (np_log (length (self_X s))))) min_BIC"
      if "fst (hmm_fit L (GaussianHMM n) (self_X s, lengths s) g0) = Inr model"
        "hmm_score L model (self_X s, lengths s) = Inr logL" for model logL
    proof -
      have v: "r = Inr (fl_add (fl_mul (Fin (- 2)) logL)
                      (fl_mul (Fin (of_int (bic_p n (hmm_n_features L model))))
                         (np_log (length (self_X s)))))"
        using r bic_candidate_scores[OF that] by simp
      with mem low show ?thesis by blast
    qed
    show ?thesis using a b c by blast
  qed
  have some: "fl_lt min_BIC PInf \<and>
        (\<exists>pre g0 post. bic_runs L s g = pre @ (best, g0, Inr min_BIC) # post \<and>
           (\<forall>x \<in> set pre. snd (snd x) \<noteq> Inr min_BIC))"
    if "\<exists>n g0 b. (n, g0, Inr b) \<in> set (bic_runs L s g) \<and> fl_lt b PInf"
  proof -
    from that obtain n b where "(n, Inr b) \<in> set (outcomes (bic_candidate L s) ?ns g)" "fl_lt b PInf"
      unfolding bic_runs_def using runs_values by fast
    with keep_min_first[OF kb] obtain pre post where lt: "fl_lt min_BIC PInf"
      and sp: "outcomes (bic_candidate L s) ?ns g = pre @ (best, Inr min_BIC) # post"
      and fr: "Inr min_BIC \<notin> snd ` set pre" by blast
    from runs_split[OF sp] obtain pre' g0 post' where
      sp': "runs (bic_candidate L s) ?ns g = pre' @ (best, g0, Inr min_BIC) # post'"
      and im: "snd ` set pre = (\<lambda>x. snd (snd x)) ` set pre'" by blast
    from fr im have "\<forall>x \<in> set pre'. snd (snd x) \<noteq> Inr min_BIC" by force
    with lt sp' show ?thesis unfolding bic_runs_def by blast
  qed
  have none: "best = 0 \<and> min_BIC = PInf"
    if "\<forall>n g0 b. (n, g0, Inr b) \<in> set (bic_runs L s g) \<longrightarrow> \<not> fl_lt b PInf"
  proof -
    from keep_min_first[OF kb] show ?thesis
    proof
      assume "(best, min_BIC) = (0, PInf) \<and>
        (\<forall>n v. (n, Inr v) \<in> set (outcomes (bic_candidate L s) ?ns g) \<longrightarrow> \<not> fl_lt v PInf)"
      then show ?thesis by simp
    next
      assume "fl_lt min_BIC PInf \<and> (\<exists>pre post.
          outcomes (bic_candidate L s) ?ns g = pre @ (best, Inr min_BIC) # post \<and>
          Inr min_BIC \<notin> snd ` set pre)"
      then have lt: "fl_lt min_BIC PInf"
        and "(best, Inr min_BIC) \<in> set (outcomes (bic_candidate L s) ?ns g)" by auto
      then obtain g0 where "(best, g0, Inr min_BIC) \<in> set (bic_runs L s g)"
        unfolding bic_runs_def using runs_values by fast
      with that lt show ?thesis by blast
    qed
  qed
  have null: "fst (SelectorBIC_select L s g) = Inr None"
    if "best = 0" and "\<exists>e. fst (hmm_fit L \<lparr>n_components = 0, n_iter = 1000,
           hmm_random_state = Some (random_state s)\<rparr> (self_X s, lengths s) g') = Inl e"
    using that sel by (auto simp: base_model_def split: prod.splits sum.splits)
  show ?thesis
    apply (intro conjI)
    subgoal using sel .
    subgoal using names .
    subgoal using head by blast
    subgoal using chain by blast
    subgoal using entry by blast
    subgoal using some by blast
    subgoal using none null by blast
    done
qed

theorem SelectorBIC_select_minimum_witness:
  "bic_loop bic_lib two_frames [min_n_components two_frames..max_n_components two_frames]
     (0, PInf, ()) = (3, Fin (100 + 26 * ln 2), ()) \<and>
   bic_runs bic_lib two_frames () =
     [(2, (), Inr (Fin (120 + 7 * ln 2))), (3, (), Inr (Fin (100 + 26 * ln 2))),
      (4, (), Inr (Fin (90 + 63 * ln 2)))] \<and>
   SelectorBIC_select bic_lib two_frames () = (Inr (Some 3), ()) \<and>
   fst (hmm_fit bic_lib (GaussianHMM 4) (self_X two_frames, lengths two_frames) ()) = Inr 4 \<and>
   hmm_score bic_lib 4 (self_X two_frames, lengths two_frames) = Inr (Fin (- 45)) \<and>
   \<not> fl_lt (fl_add (fl_mul (Fin (- 2)) (Fin (- 45)))
          (fl_mul (Fin (of_int (bic_p 4 (hmm_n_features bic_lib 4))))
             (np_log (length (self_X two_frames))))) (Fin (100 + 26 * ln 2)) \<and>
   fl_lt (Fin (100 + 26 * ln 2)) PInf \<and>
   (\<exists>pre g0 post. bic_runs bic_lib two_frames () = pre @ (3, g0, Inr (Fin (100 + 26 * ln 2))) # post \<and>
      (\<forall>x \<in> set pre. snd (snd x) \<noteq> Inr (Fin (100 + 26 * ln 2))))"
proof -
  note main = SelectorBIC_select_minimum[OF bic_lib_loop]
  have ex: "\<exists>n g0 b. (n, g0, Inr b) \<in> set (bic_runs bic_lib two_frames ()) \<and> fl_lt b PInf"
    unfolding bic_lib_runs
    by (intro exI[of _ 2] exI[of _ "()"] exI[of _ "Fin (120 + 7 * ln 2)"]) simp
  have sel: "SelectorBIC_select bic_lib two_frames () = (Inr (Some 3), ())"
    using main by (simp add: base_model_def bic_lib_def table_lib_def positive_fit_def)
  have mem: "(4, (), Inr (Fin (90 + 63 * ln 2))) \<in> set (bic_runs bic_lib two_frames ())"
    by (simp add: bic_lib_runs)
  have fit: "fst (hmm_fit bic_lib (GaussianHMM 4) (self_X two_frames, lengths two_frames) ()) = Inr 4"
    by (simp add: bic_lib_def table_lib_def positive_fit_def GaussianHMM_def)
  have sc: "hmm_score bic_lib 4 (self_X two_frames, lengths two_frames) = Inr (Fin (- 45))"
    by (simp add: bic_lib_def table_lib_def bic_scores_def)
  from main mem fit sc have low:
    "\<not> fl_lt (fl_add (fl_mul (Fin (- 2)) (Fin (- 45)))
          (fl_mul (Fin (of_int (bic_p 4 (hmm_n_features bic_lib 4))))
             (np_log (length (self_X two_frames))))) (Fin (100 + 26 * ln 2))" by blast
  from main ex have first: "fl_lt (Fin (100 + 26 * ln 2)) PInf \<and>
    (\<exists>pre g0 post. bic_runs bic_lib two_frames () =
      pre @ (3, g0, Inr (Fin (100 + 26 * ln 2))) # post \<and>
      (\<forall>x \<in> set pre. snd (snd x) \<noteq> Inr (Fin (100 + 26 * ln 2))))"
    by blast
  show ?thesis using bic_lib_loop bic_lib_runs sel fit sc low first by blast
qed

text \<open>
  Claim C3 as stated fails for a candidate whose BIC is not below \<open>+inf\<close>: the only
  candidate, \<open>n = 2\<close>, trains and scores \<open>-inf\<close>, so its BIC is \<open>+inf\<close>; it minimises
  the BIC among the successful candidates, yet \<open>select\<close> returns \<open>base_model(0)\<close>, here
  \<open>None\<close>, and not \<open>base_model(2)\<close>.
\<close>

theorem SelectorBIC_select_counterexample:
  "bic_outcomes (table_lib positive_fit neg_inf_scores)
     (cat_selector\<lparr>max_n_components := 2\<rparr>) () = [(2, Inr PInf)] \<and>
   SelectorBIC_select (table_lib positive_fit neg_inf_scores)
     (cat_selector\<lparr>max_n_components := 2\<rparr>) () = (Inr None, ()) \<and>
   base_model (table_lib positive_fit neg_inf_scores)
     (cat_selector\<lparr>max_n_components := 2\<rparr>) 2 () = (Inr (Some 2), ())"
  by (simp add: bic_outcomes_def SelectorBIC_select_def base_model_def cat_selector_def
      table_lib_def positive_fit_def neg_inf_scores_def bic_candidate_def GaussianHMM_def
      bic_p_def np_log_def Let_def inf_times_def)

text \<open>
  Claim C6. With fewer than three sequences \<open>SelectorCV.select\<close> is \<open>base_model(3)\<close>,
  run on the random generator as \<open>select\<close> found it: no fold was split, trained or
  scored before.
\<close>

theorem SelectorCV_few_sequences:
  assumes "length (sequences s) < 3"
  shows "SelectorCV_select L s g = base_model L s 3 g \<and> cv_best L s g = (3, g)"
  using assms by (simp add: SelectorCV_select_def cv_best_def)

theorem SelectorCV_few_sequences_witness:
  "length (sequences two_sequence_selector) < 3 \<and>
   SelectorCV_select bic_lib two_sequence_selector () = (Inr (Some 3), ()) \<and>
   base_model bic_lib two_sequence_selector 3 () = (Inr (Some 3), ()) \<and>
   cv_best bic_lib two_sequence_selector () = (3, ())"
proof -
  have h: "length (sequences two_sequence_selector) < 3"
    by (simp add: two_sequence_selector_def cat_selector_def)
  have b: "base_model bic_lib two_sequence_selector 3 () = (Inr (Some 3), ())"
    by (simp add: base_model_def bic_lib_def table_lib_def positive_fit_def)
  from SelectorCV_few_sequences[OF h, of bic_lib "()"] h b show ?thesis by simp
qed

lemma dic_others_sum:
  "dic_others L s model ws acc = Inr tot_sum \<Longrightarrow>
   \<exists>ls. list_all2 (\<lambda>word l. \<exists>d. map_of (hwords s) word = Some d \<and> hmm_score L model d = Inr l)
          (filter (\<lambda>word. word \<noteq> this_word s) ws) ls \<and>
        tot_sum = foldl py_add acc ls"
proof (induction ws arbitrary: acc)
  case Nil
  then show ?case by simp
next
  case (Cons w ws)
  show ?case
  proof (cases "w = this_word s")
    case True
    with Cons.prems have "dic_others L s model ws acc = Inr tot_sum" by simp
    from Cons.IH[OF this] True show ?thesis by simp
  next
    case False
    with Cons.prems obtain d l where d: "map_of (hwords s) w = Some d"
      and l: "hmm_score L model d = Inr l"
      and rest: "dic_others L s model ws (py_add acc l) = Inr tot_sum"
      by (auto split: option.splits sum.splits)
    from Cons.IH[OF rest] obtain ls where
      ls: "list_all2 (\<lambda>word l. \<exists>d. map_of (hwords s) word = Some d \<and> hmm_score L model d = Inr l)
             (filter (\<lambda>word. word \<noteq> this_word s) ws) ls"
      and tot: "tot_sum = foldl py_add (py_add acc l) ls" by blast
    have "list_all2 (\<lambda>word l. \<exists>d. map_of (hwords s) word = Some d \<and> hmm_score L model d = Inr l)
             (filter (\<lambda>word. word \<noteq> this_word s) (w # ws)) (l # ls)"
      using False d l ls by (cases d) auto
    moreover have "tot_sum = foldl py_add acc (l # ls)" using tot by simp
    ultimately show ?thesis by blast
  qed
qed

lemma dic_example_loop:
  "dic_loop (table_lib positive_fit dic_scores) three_words
     [min_n_components three_words..max_n_components three_words] (0, NInf, ()) = (3, Fin 40, ())"
  by (simp add: three_words_def upto_2_4 table_lib_def positive_fit_def dic_scores_def
      dic_candidate_def GaussianHMM_def fl_sub_def fl_gt_def)

lemma three_words_range: "[min_n_components three_words..max_n_components three_words] = [2, 3, 4]"
  by (simp add: three_words_def upto_2_4)

lemma dic_example_runs:
  "dic_runs (table_lib positive_fit dic_scores) three_words () =
     [(2, (), Inr (Fin 20)), (3, (), Inr (Fin 40)), (4, (), Inr (Fin 10))]"
  unfolding dic_runs_def three_words_range
  by (simp add: three_words_def table_lib_def positive_fit_def
      dic_scores_def dic_candidate_def GaussianHMM_def fl_sub_def)

lemma dic_example_others:
  "other_scores (table_lib positive_fit dic_scores) three_words 4 [Fin (- 50), Fin (- 60)]"
  by (simp add: other_scores_def three_words_def table_lib_def dic_scores_def)

lemma dic_others_all_score:
  "list_all2 (\<lambda>word l. \<exists>d. map_of (hwords s) word = Some d \<and> hmm_score L model d = Inr l)
      (filter (\<lambda>word. word \<noteq> this_word s) ws) ls \<Longrightarrow>
   dic_others L s model ws acc = Inr (foldl py_add acc ls)"
proof (induction ws arbitrary: acc ls)
  case Nil
  then show ?case by simp
next
  case (Cons w ws)
  show ?case
  proof (cases "w = this_word s")
    case True
    with Cons.prems Cons.IH[of ls acc] show ?thesis by simp
  next
    case False
    with Cons.prems obtain l ls' d where ls: "ls = l # ls'"
      and d: "map_of (hwords s) w = Some d" "hmm_score L model d = Inr l"
      and rest: "list_all2 (\<lambda>word l. \<exists>d. map_of (hwords s) word = Some d \<and> hmm_score L model d = Inr l)
          (filter (\<lambda>word. word \<noteq> this_word s) ws) ls'"
      by (auto simp: list_all2_Cons1)
    from Cons.IH[OF rest, of "py_add acc l"] False d ls show ?thesis by simp
  qed
qed

lemma dic_candidate_fit_raises:
  "fst (hmm_fit L (GaussianHMM n) (self_X s, lengths s) g0) = Inl e \<Longrightarrow>
   fst (dic_candidate L s n g0) = Inl e"
  by (auto simp: dic_candidate_def split: prod.splits sum.splits)

lemma dic_candidate_score_raises:
  "fst (hmm_fit L (GaussianHMM n) (self_X s, lengths s) g0) = Inr model \<Longrightarrow>
   hmm_score L model (self_X s, lengths s) = Inl e \<Longrightarrow>
   fst (dic_candidate L s n g0) = Inl e"
  by (auto simp: dic_candidate_def split: prod.splits sum.splits)

lemma dic_candidate_other_raises:
  assumes "fst (hmm_fit L (GaussianHMM n) (self_X s, lengths s) g0) = Inr model"
    and "hmm_score L model (self_X s, lengths s) = Inr logL"
    and "\<forall>ls. \<not> other_scores L s model ls"
  shows "\<exists>e. fst (dic_candidate L s n g0) = Inl e"
proof (cases "dic_others L s model (map fst (words s)) (PyInt 0)")
  case (Inl e)
  with assms(1,2) show ?thesis
    by (auto simp: dic_candidate_def split: prod.splits sum.splits)
next
  case (Inr tot_sum)
  from dic_others_sum[OF this] assms(3) show ?thesis unfolding other_scores_def by blast
qed

lemma dic_candidate_scores:
  assumes "fst (hmm_fit L (GaussianHMM n) (self_X s, lengths s) g0) = Inr model"
    and "hmm_score L model (self_X s, lengths s) = Inr logL"
    and "other_scores L s model ls"
  shows "fst (dic_candidate L s n g0) =
     (case py_truediv (foldl py_add (PyInt 0) ls) (int (length (words s)) - 1) of
        Inl e \<Rightarrow> Inl e | Inr avgLogL \<Rightarrow> Inr (fl_sub logL avgLogL))"
proof -
  have "dic_others L s model (map fst (words s)) (PyInt 0) = Inr (foldl py_add (PyInt 0) ls)"
    using dic_others_all_score assms(3) unfolding other_scores_def by fast
  with assms(1,2) show ?thesis
    by (auto simp: dic_candidate_def split: prod.splits sum.splits)
qed

lemma dic_candidate_state:
  "snd (dic_candidate L s n g0) = snd (hmm_fit L (GaussianHMM n) (self_X s, lengths s) g0)"
  by (auto simp: dic_candidate_def split: prod.splits sum.splits)

text \<open>
  Claim C5, as amended. \<open>SelectorDIC.select\<close> returns \<open>base_model(best)\<close> for the
  \<open>best\<close> its loop ends with. The loop runs every candidate of
  \<open>[min_n_components, max_n_components]\<close> once, in order, the first on the generator as
  \<open>select\<close> found it and each next one on the generator as the training of the one
  before left it. A candidate has no value when its training raises, when scoring its
  own data raises, when some other label has no data or cannot be scored, or when the
  division by the number of labels minus one raises. Otherwise its value is
  \<open>logL - avgLogL\<close>, \<open>logL\<close> its score on the label's own data and \<open>avgLogL\<close> the
  sum of its scores on the data of every other label divided by the number of labels
  minus one, and that value is not strictly above the final \<open>max_DIC\<close>. If some
  candidate has a DIC strictly above \<open>-inf\<close>, then \<open>best\<close> is the first candidate
  whose DIC is \<open>max_DIC\<close>; if none has, \<open>best\<close> remains 0.
\<close>

theorem SelectorDIC_select_maximum:
  assumes "dic_loop L s [min_n_components s..max_n_components s] (0, NInf, g) = (best, max_DIC, g')"
  shows "SelectorDIC_select L s g = base_model L s best g' \<and>
     map fst (dic_runs L s g) = [min_n_components s..max_n_components s] \<and>
     (\<forall>n g0 r post. dic_runs L s g = (n, g0, r) # post \<longrightarrow> g0 = g) \<and>
     (\<forall>pre n g0 r n' g1 r' post. dic_runs L s g = pre @ (n, g0, r) # (n', g1, r') # post \<longrightarrow>
        g1 = snd (hmm_fit L (GaussianHMM n) (self_X s, lengths s) g0)) \<and>
     (\<forall>n g0 r. (n, g0, r) \<in> set (dic_runs L s g) \<longrightarrow>
        (\<forall>e. fst (hmm_fit L (GaussianHMM n) (self_X s, lengths s) g0) = Inl e \<longrightarrow> r = Inl e) \<and>
        (\<forall>model e. fst (hmm_fit L (GaussianHMM n) (self_X s, lengths s) g0) = Inr model \<and>
           hmm_score L model (self_X s, lengths s) = Inl e \<longrightarrow> r = Inl e) \<and>
        (\<forall>model logL. fst (hmm_fit L (GaussianHMM n) (self_X s, lengths s) g0) = Inr model \<and>
           hmm_score L model (self_X s, lengths s) = Inr logL \<longrightarrow>
           ((\<forall>ls. \<not> other_scores L s model ls) \<longrightarrow> (\<exists>e. r = Inl e)) \<and>
           (\<forall>ls e. other_scores L s model ls \<and>
              py_truediv (foldl py_add (PyInt 0) ls) (int (length (words s)) - 1) = Inl e \<longrightarrow>
              r = Inl e) \<and>
           (\<forall>ls avgLogL. other_scores L s model ls \<and>
              py_truediv (foldl py_add (PyInt 0) ls) (int (length (words s)) - 1) = Inr avgLogL \<longrightarrow>
              r = Inr (fl_sub logL avgLogL) \<and> \<not> fl_gt (fl_sub logL avgLogL) max_DIC))) \<and>
     ((\<exists>n g0 b. (n, g0, Inr b) \<in> set (dic_runs L s g) \<and> fl_gt b NInf) \<longrightarrow>
        fl_gt max_DIC NInf \<and>
        (\<exists>pre g0 post. dic_runs L s g = pre @ (best, g0, Inr max_DIC) # post \<and>
           (\<forall>x \<in> set pre. snd (snd x) \<noteq> Inr max_DIC))) \<and>
     ((\<forall>n g0 b. (n, g0, Inr b) \<in> set (dic_runs L s g) \<longrightarrow> \<not> fl_gt b NInf) \<longrightarrow>
        best = 0 \<and> max_DIC = NInf)"
proof -
  let ?ns = "[min_n_components s..max_n_components s]"
  have sel: "SelectorDIC_select L s g = base_model L s best g'"
    using assms by (simp add: SelectorDIC_select_def)
  have kb: "keep_best fl_gt (outcomes (dic_candidate L s) ?ns g) (0, NInf) = (best, max_DIC)"
    using dic_loop_keep_best[OF assms] .
  have names: "map fst (dic_runs L s g) = ?ns"
    by (simp add: dic_runs_def runs_fst)
  have head: "g0 = g" if "dic_runs L s g = (n, g0, r) # post" for n g0 r post
    using that runs_head unfolding dic_runs_def by fast
  have chain: "g1 = snd (hmm_fit L (GaussianHMM n) (self_X s, lengths s) g0)"
    if "dic_runs L s g = pre @ (n, g0, r) # (n', g1, r') # post" for pre n g0 r n' g1 r' post
    using runs_chain[OF that[unfolded dic_runs_def]] by (simp add: dic_candidate_state)
  have top: "\<not> fl_gt b max_DIC" if "(n, g0, Inr b) \<in> set (dic_runs L s g)" for n g0 b
  proof -
    from that have "(n, Inr b) \<in> set (outcomes (dic_candidate L s) ?ns g)"
      unfolding dic_runs_def using runs_values by fast
    with keep_max_bound[OF kb] show ?thesis by blast
  qed
  have entry: "(\<forall>e. fst (hmm_fit L (GaussianHMM n) (self_X s, lengths s) g0) = Inl e \<longrightarrow> r = Inl e) \<and>
        (\<forall>model e. fst (hmm_fit L (GaussianHMM n) (self_X s, lengths s) g0) = Inr model \<and>
           hmm_score L model (self_X s, lengths s) = Inl e \<longrightarrow> r = Inl e) \<and>
        (\<forall>model logL. fst (hmm_fit L (GaussianHMM n) (self_X s, lengths s) g0) = Inr model \<and>
           hmm_score L model (self_X s, lengths s) = Inr logL \<longrightarrow>
           ((\<forall>ls. \<not> other_scores L s model ls) \<longrightarrow> (\<exists>e. r = Inl e)) \<and>
           (\<forall>ls e. other_scores L s model ls \<and>
              py_truediv (foldl py_add (PyInt 0) ls) (int (length (words s)) - 1) = Inl e \<longrightarrow>
              r = Inl e) \<and>
           (\<forall>ls avgLogL. other_scores L s model ls \<and>
              py_truediv (foldl py_add (PyInt 0) ls) (int (length (words s)) - 1) = Inr avgLogL \<longrightarrow>
              r = Inr (fl_sub logL avgLogL) \<and> \<not> fl_gt (fl_sub logL avgLogL) max_DIC))"
    if mem: "(n, g0, r) \<in> set (dic_runs L s g)" for n g0 r
  proof -
    have r: "r = fst (dic_candidate L s n g0)"
      using runs_mem[OF mem[unfolded dic_runs_def]] .
    have a: "r = Inl e" if "fst (hmm_fit L (GaussianHMM n) (self_X s, lengths s) g0) = Inl e" for e
      using r dic_candidate_fit_raises[OF that] by simp
    have b: "r = Inl e"
      if "fst (hmm_fit L (GaussianHMM n) (self_X s, lengths s) g0) = Inr model"
        "hmm_score L model (self_X s, lengths s) = Inl e" for model e
      using r dic_candidate_score_raises[OF that] by simp
    have c1: "\<exists>e. r = Inl e"
      if "fst (hmm_fit L (GaussianHMM n) (self_X s, lengths s) g0) = Inr model"
        "hmm_score L model (self_X s, lengths s) = Inr logL"
        "\<forall>ls. \<not> other_scores L s model ls" for model logL
      using r dic_candidate_other_raises[OF that] by simp
    have c2: "r = Inl e"
      if "fst (hmm_fit L (GaussianHMM n) (self_X s, lengths s) g0) = Inr model"
        "hmm_score L model (self_X s, lengths s) = Inr logL"
        "other_scores L s model ls"
        "py_truediv (foldl py_add (PyInt 0) ls) (int (length (words s)) - 1) = Inl e"
      for model logL ls e
      using r dic_candidate_scores[OF that(1,2,3)] that(4) by simp
    have c3: "r = Inr (fl_sub logL avgLogL) \<and> \<not> fl_gt (fl_sub logL avgLogL) max_DIC"
      if "fst (hmm_fit L (GaussianHMM n) (self_X s, lengths s) g0) = Inr model"
        "hmm_score L model (self_X s, lengths s) = Inr logL"
        "other_scores L s model ls"
        "py_truediv (foldl py_add (PyInt 0) ls) (int (length (words s)) - 1) = Inr avgLogL"
      for model logL ls avgLogL
    proof -
      have "r = Inr (fl_sub logL avgLogL)"
        using r dic_candidate_scores[OF that(1,2,3)] that(4) by simp
      with mem top show ?thesis by blast
    qed
    show ?thesis
      apply (intro conjI allI impI)
      subgoal using a by blast
      subgoal using b by blast
      subgoal using c1 by blast
      subgoal using c2 by blast
      subgoal using c3 by blast
      subgoal using c3 by blast
      done
  qed
  have some: "fl_gt max_DIC NInf \<and>
        (\<exists>pre g0 post. dic_runs L s g = pre @ (best, g0, Inr max_DIC) # post \<and>
           (\<forall>x \<in> set pre. snd (snd x) \<noteq> Inr max_DIC))"
    if "\<exists>n g0 b. (n, g0, Inr b) \<in> set (dic_runs L s g) \<and> fl_gt b NInf"
  proof -
    from that obtain n b where "(n, Inr b) \<in> set (outcomes (dic_candidate L s) ?ns g)" "fl_gt b NInf"
      unfolding dic_runs_def using runs_values by fast
    with keep_max_first[OF kb] obtain pre post where gt: "fl_gt max_DIC NInf"
      and sp: "outcomes (dic_candidate L s) ?ns g = pre @ (best, Inr max_DIC) # post"
      and fr: "Inr max_DIC \<notin> snd ` set pre" by blast
    from runs_split[OF sp] obtain pre' g0 post' where
      sp': "runs (dic_candidate L s) ?ns g = pre' @ (best, g0, Inr max_DIC) # post'"
      and im: "snd ` set pre = (\<lambda>x. snd (snd x)) ` set pre'" by blast
    from fr im have "\<forall>x \<in> set pre'. snd (snd x) \<noteq> Inr max_DIC" by force
    with gt sp' show ?thesis unfolding dic_runs_def by blast
  qed
  have none: "best = 0 \<and> max_DIC = NInf"
    if "\<forall>n g0 b. (n, g0, Inr b) \<in> set (dic_runs L s g) \<longrightarrow> \<not> fl_gt b NInf"
  proof -
    from keep_max_first[OF kb] show ?thesis
    proof
      assume "(best, max_DIC) = (0, NInf) \<and>
        (\<forall>n v. (n, Inr v) \<in> set (outcomes (dic_candidate L s) ?ns g) \<longrightarrow> \<not> fl_gt v NInf)"
      then show ?thesis by simp
    next
      assume "fl_gt max_DIC NInf \<and> (\<exists>pre post.
          outcomes (dic_candidate L s) ?ns g = pre @ (best, Inr max_DIC) # post \<and>
          Inr max_DIC \<notin> snd ` set pre)"
      then have gt: "fl_gt max_DIC NInf"
        and "(best, Inr max_DIC) \<in> set (outcomes (dic_candidate L s) ?ns g)" by auto
      then obtain g0 where "(best, g0, Inr max_DIC) \<in> set (dic_runs L s g)"
        unfolding dic_runs_def using runs_values by fast
      with that gt show ?thesis by blast
    qed
  qed
  show ?thesis
    apply (intro conjI)
    subgoal using sel .
    subgoal using names .
    subgoal using head by blast
    subgoal using chain by blast
    subgoal using entry by blast
    subgoal using some by blast
    subgoal using none by blast
    done
qed

theorem SelectorDIC_select_maximum_witness:
  "dic_loop (table_lib positive_fit dic_scores) three_words
     [min_n_components three_words..max_n_components three_words] (0, NInf, ()) = (3, Fin 40, ()) \<and>
   dic_runs (table_lib positive_fit dic_scores) three_words () =
     [(2, (), Inr (Fin 20)), (3, (), Inr (Fin 40)), (4, (), Inr (Fin 10))] \<and>
   SelectorDIC_select (table_lib positive_fit dic_scores) three_words () = (Inr (Some 3), ()) \<and>
   fst (hmm_fit (table_lib positive_fit dic_scores) (GaussianHMM 4)
          (self_X three_words, lengths three_words) ()) = Inr 4 \<and>
   hmm_score (table_lib positive_fit dic_scores) 4 (self_X three_words, lengths three_words) =
     Inr (Fin (- 45)) \<and>
   other_scores (table_lib positive_fit dic_scores) three_words 4 [Fin (- 50), Fin (- 60)] \<and>
   py_truediv (foldl py_add (PyInt 0) [Fin (- 50), Fin (- 60)])
     (int (length (words three_words)) - 1) = Inr (Fin (- 55)) \<and>
   Inr (Fin 10) = (Inr (fl_sub (Fin (- 45)) (Fin (- 55))) :: exn + pyfloat) \<and>
   \<not> fl_gt (fl_sub (Fin (- 45)) (Fin (- 55))) (Fin 40) \<and>
   fl_gt (Fin 40) NInf \<and>
   (\<exists>pre g0 post. dic_runs (table_lib positive_fit dic_scores) three_words () =
      pre @ (3, g0, Inr (Fin 40)) # post \<and> (\<forall>x \<in> set pre. snd (snd x) \<noteq> Inr (Fin 40)))"
proof -
  note main = SelectorDIC_select_maximum[OF dic_example_loop]
  have ex: "\<exists>n g0 b. (n, g0, Inr b) \<in> set (dic_runs (table_lib positive_fit dic_scores) three_words ())
      \<and> fl_gt b NInf"
    unfolding dic_example_runs
    by (intro exI[of _ 2] exI[of _ "()"] exI[of _ "Fin 20"]) (simp add: fl_gt_def)
  have sel: "SelectorDIC_select (table_lib positive_fit dic_scores) three_words () = (Inr (Some 3), ())"
    using main by (simp add: base_model_def table_lib_def positive_fit_def)
  have mem: "(4, (), Inr (Fin 10)) \<in> set (dic_runs (table_lib positive_fit dic_scores) three_words ())"
    by (simp add: dic_example_runs)
  have fit: "fst (hmm_fit (table_lib positive_fit dic_scores) (GaussianHMM 4)
          (self_X three_words, lengths three_words) ()) = Inr 4"
    by (simp add: table_lib_def positive_fit_def GaussianHMM_def)
  have sc: "hmm_score (table_lib positive_fit dic_scores) 4 (self_X three_words, lengths three_words) =
     Inr (Fin (- 45))"
    by (simp add: table_lib_def dic_scores_def three_words_def)
  have avg: "py_truediv (foldl py_add (PyInt 0) [Fin (- 50), Fin (- 60)])
     (int (length (words three_words)) - 1) = Inr (Fin (- 55))"
    by (simp add: three_words_def)
  from main mem fit sc dic_example_others avg have val:
    "Inr (Fin 10) = (Inr (fl_sub (Fin (- 45)) (Fin (- 55))) :: exn + pyfloat) \<and>
     \<not> fl_gt (fl_sub (Fin (- 45)) (Fin (- 55))) (Fin 40)" by blast
  from main ex have first: "fl_gt (Fin 40) NInf \<and>
    (\<exists>pre g0 post. dic_runs (table_lib positive_fit dic_scores) three_words () =
      pre @ (3, g0, Inr (Fin 40)) # post \<and> (\<forall>x \<in> set pre. snd (snd x) \<noteq> Inr (Fin 40)))"
    by blast
  show ?thesis using dic_example_loop dic_example_runs sel fit sc dic_example_others avg val first
    by blast
qed

text \<open>
  Claim C5 as stated fails for a candidate whose DIC is not above \<open>-inf\<close>: the only
  candidate, \<open>n = 2\<close>, trains, scores \<open>-inf\<close> on its own data and \<open>-60\<close> on the two
  other labels; its DIC is \<open>-inf\<close>, the maximum among the successful candidates, yet
  \<open>select\<close> returns \<open>base_model(0)\<close>, here \<open>None\<close>, and not \<open>base_model(2)\<close>.
\<close>

theorem SelectorDIC_select_counterexample:
  "dic_outcomes (table_lib positive_fit own_neg_inf_scores)
     (three_words\<lparr>max_n_components := 2\<rparr>) () = [(2, Inr NInf)] \<and>
   SelectorDIC_select (table_lib positive_fit own_neg_inf_scores)
     (three_words\<lparr>max_n_components := 2\<rparr>) () = (Inr None, ()) \<and>
   base_model (table_lib positive_fit own_neg_inf_scores)
     (three_words\<lparr>max_n_components := 2\<rparr>) 2 () = (Inr (Some 2), ())"
  by (simp add: dic_outcomes_def SelectorDIC_select_def base_model_def three_words_def
      table_lib_def positive_fit_def own_neg_inf_scores_def dic_candidate_def GaussianHMM_def
      fl_sub_def fl_gt_def)

lemma dic_loop_all_fail:
  assumes "\<And>n g0. \<exists>e. fst (dic_candidate L s n g0) = Inl e"
  shows "\<exists>g'. dic_loop L s ns (b, m, g) = (b, m, g')"
proof (induction ns arbitrary: g)
  case Nil
  then show ?case by simp
next
  case (Cons n ns)
  obtain r g1 where step: "dic_candidate L s n g = (r, g1)" by (cases "dic_candidate L s n g")
  with assms[of n g] obtain e where "r = Inl e" by auto
  with step Cons.IH[of g1] show ?case by simp
qed

lemma init_fields:
  assumes "ModelSelector_init all_word_sequences all_word_Xlengths w nc lo hi seed vb = Inr s"
  shows "words s = all_word_sequences \<and> hwords s = all_word_Xlengths \<and> this_word s = w \<and>
         min_n_components s = lo \<and> max_n_components s = hi \<and> random_state s = seed \<and>
         n_constant s = nc \<and>
         map_of all_word_sequences w = Some (sequences s) \<and>
         map_of all_word_Xlengths w = Some (self_X s, lengths s)"
  using assms by (auto simp: ModelSelector_init_def split: option.splits)

lemma single_label_words:
  assumes "ModelSelector_init all_word_sequences all_word_Xlengths w nc lo hi seed vb = Inr s"
    and "length all_word_sequences = 1"
  shows "map fst (words s) = [this_word s]"
proof -
  from init_fields[OF assms(1)] have f: "words s = all_word_sequences" "this_word s = w"
    "map_of all_word_sequences w = Some (sequences s)" by auto
  from assms(2) obtain p where p: "all_word_sequences = [p]"
    by (cases all_word_sequences) auto
  with f(3) have "fst p = w" by (cases p) (auto split: if_splits)
  with f p show ?thesis by simp
qed

lemma cat_selector_init:
  "ModelSelector_init [(''CAT'', [[[0]]])] [(''CAT'', ([[0]], [1]))] ''CAT'' 3 2 4 14 False =
     Inr cat_selector"
  by (simp add: ModelSelector_init_def cat_selector_def)

text \<open>
  Claim C10. For a selector constructed over exactly one label, every DIC candidate
  raises; one that trains and scores raises \<open>ZeroDivisionError\<close> at the division by
  the number of labels minus one. The loop therefore ends with the sentinel 0, \<open>select\<close>
  is \<open>base_model(0)\<close>, and the result is \<open>None\<close> when training with 0 states raises.
\<close>

theorem SelectorDIC_single_label:
  assumes "ModelSelector_init all_word_sequences all_word_Xlengths w nc lo hi seed vb = Inr s"
    and "length all_word_sequences = 1"
  shows "(\<forall>n g0. \<exists>e. fst (dic_candidate L s n g0) = Inl e) \<and>
         (\<forall>n g0 model logL.
            fst (hmm_fit L (GaussianHMM n) (self_X s, lengths s) g0) = Inr model \<and>
            hmm_score L model (self_X s, lengths s) = Inr logL \<longrightarrow>
            fst (dic_candidate L s n g0) = Inl ZeroDivisionError) \<and>
         (\<exists>g'. dic_loop L s [min_n_components s..max_n_components s] (0, NInf, g) = (0, NInf, g') \<and>
            SelectorDIC_select L s g = base_model L s 0 g') \<and>
         ((\<forall>g1. \<exists>e. fst (hmm_fit L \<lparr>n_components = 0, n_iter = 1000,
                          hmm_random_state = Some seed\<rparr> (self_X s, lengths s) g1) = Inl e) \<longrightarrow>
            fst (SelectorDIC_select L s g) = Inr None)"
proof -
  have ws: "map fst (words s) = [this_word s]" and len: "length (words s) = 1"
    and seed: "random_state s = seed"
    using single_label_words[OF assms] init_fields[OF assms(1)] assms(2) by auto
  have zero: "fst (dic_candidate L s n g0) = Inl ZeroDivisionError"
    if "fst (hmm_fit L (GaussianHMM n) (self_X s, lengths s) g0) = Inr model"
      and "hmm_score L model (self_X s, lengths s) = Inr logL" for n g0 model logL
    using that ws len by (auto simp: dic_candidate_def split: prod.splits sum.splits)
  have fail: "\<exists>e. fst (dic_candidate L s n g0) = Inl e" for n g0
    using ws len by (auto simp: dic_candidate_def split: prod.splits sum.splits)
  from dic_loop_all_fail[of L s, OF fail] obtain g' where
    loop: "dic_loop L s [min_n_components s..max_n_components s] (0, NInf, g) = (0, NInf, g')"
    by blast
  then have sel: "SelectorDIC_select L s g = base_model L s 0 g'"
    by (simp add: SelectorDIC_select_def)
  have null: "fst (SelectorDIC_select L s g) = Inr None"
    if "\<forall>g1. \<exists>e. fst (hmm_fit L \<lparr>n_components = 0, n_iter = 1000,
                          hmm_random_state = Some seed\<rparr> (self_X s, lengths s) g1) = Inl e"
  proof -
    from that obtain e where "fst (hmm_fit L \<lparr>n_components = 0, n_iter = 1000,
        hmm_random_state = Some seed\<rparr> (self_X s, lengths s) g') = Inl e" by blast
    with sel seed show ?thesis by (auto simp: base_model_def split: prod.splits sum.splits)
  qed
  show ?thesis using zero fail loop sel null by blast
qed

theorem SelectorDIC_single_label_witness:
  "ModelSelector_init [(''CAT'', [[[0]]])] [(''CAT'', ([[0]], [1]))] ''CAT'' 3 2 4 14 False =
     Inr cat_selector \<and>
   length [(''CAT'', [[[0::real]]])] = 1 \<and>
   fst (hmm_fit bic_lib (GaussianHMM 2) (self_X cat_selector, lengths cat_selector) ()) = Inr 2 \<and>
   hmm_score bic_lib 2 (self_X cat_selector, lengths cat_selector) = Inr (Fin (- 60)) \<and>
   fst (dic_candidate bic_lib cat_selector 2 ()) = Inl ZeroDivisionError \<and>
   (\<forall>g1. \<exists>e. fst (hmm_fit bic_lib \<lparr>n_components = 0, n_iter = 1000,
                    hmm_random_state = Some 14\<rparr>
                    (self_X cat_selector, lengths cat_selector) g1) = Inl e) \<and>
   fst (SelectorDIC_select bic_lib cat_selector ()) = Inr None"
proof -
  have len: "length [(''CAT'', [[[0::real]]])] = 1" by simp
  note main = SelectorDIC_single_label[OF cat_selector_init len, of bic_lib "()"]
  have fit: "fst (hmm_fit bic_lib (GaussianHMM 2) (self_X cat_selector, lengths cat_selector) ()) = Inr 2"
    by (simp add: bic_lib_def table_lib_def positive_fit_def GaussianHMM_def)
  have sc: "hmm_score bic_lib 2 (self_X cat_selector, lengths cat_selector) = Inr (Fin (- 60))"
    by (simp add: bic_lib_def table_lib_def bic_scores_def)
  from main fit sc have z: "fst (dic_candidate bic_lib cat_selector 2 ()) = Inl ZeroDivisionError"
    by blast
  have f0: "\<forall>g1. \<exists>e. fst (hmm_fit bic_lib \<lparr>n_components = 0, n_iter = 1000,
                    hmm_random_state = Some 14\<rparr>
                    (self_X cat_selector, lengths cat_selector) g1) = Inl e"
    by (simp add: bic_lib_def table_lib_def positive_fit_def)
  with main have n: "fst (SelectorDIC_select bic_lib cat_selector ()) = Inr None" by blast
  show ?thesis using cat_selector_init len fit sc z f0 n by blast
qed

lemma cv_fold_runs_prefix:
  "map fst (cv_fold_runs L s n folds g) = take (length (cv_fold_runs L s n folds g)) folds"
proof (induction folds arbitrary: g)
  case Nil
  then show ?case by simp
next
  case (Cons idx folds)
  then show ?case
    by (cases "cv_fold L s n idx g") (auto split: sum.splits)
qed

lemma cv_fold_runs_head: "cv_fold_runs L s n folds g = (idx, g0, r) # post \<Longrightarrow> g0 = g"
  by (cases folds) (auto split: prod.splits sum.splits)

lemma cv_fold_runs_mem:
  "(idx, g0, r) \<in> set (cv_fold_runs L s n folds g) \<Longrightarrow> r = fst (cv_fold L s n idx g0)"
proof (induction folds arbitrary: g)
  case Nil
  then show ?case by simp
next
  case (Cons a folds)
  obtain ra ga where step: "cv_fold L s n a g = (ra, ga)" by (cases "cv_fold L s n a g")
  show ?case
  proof (cases ra)
    case (Inl e)
    with step Cons.prems show ?thesis by simp
  next
    case (Inr l)
    with step Cons.prems have
      "(idx, g0, r) = (a, g, Inr l) \<or> (idx, g0, r) \<in> set (cv_fold_runs L s n folds ga)" by simp
    then show ?thesis
    proof
      assume "(idx, g0, r) = (a, g, Inr l)"
      with step Inr show ?thesis by simp
    next
      assume "(idx, g0, r) \<in> set (cv_fold_runs L s n folds ga)"
      from Cons.IH[OF this] show ?thesis .
    qed
  qed
qed

lemma cv_fold_runs_chain:
  "cv_fold_runs L s n folds g = pre @ (idx, g0, r) # (idx', g1, r') # post \<Longrightarrow>
   g1 = snd (cv_fold L s n idx g0)"
proof (induction folds arbitrary: g pre)
  case Nil
  then show ?case by simp
next
  case (Cons a folds)
  obtain ra ga where step: "cv_fold L s n a g = (ra, ga)" by (cases "cv_fold L s n a g")
  show ?case
  proof (cases ra)
    case (Inl e)
    with step Cons.prems have "[(a, g, Inl e)] = pre @ (idx, g0, r) # (idx', g1, r') # post" by simp
    then show ?thesis by (cases pre) auto
  next
    case (Inr l)
    with step Cons.prems have eq:
      "(a, g, Inr l) # cv_fold_runs L s n folds ga = pre @ (idx, g0, r) # (idx', g1, r') # post"
      by simp
    show ?thesis
    proof (cases pre)
      case Nil
      with eq have "(a, g, Inr l) = (idx, g0, r)"
        "cv_fold_runs L s n folds ga = (idx', g1, r') # post" by simp_all
      with cv_fold_runs_head[of L s n folds ga idx' g1 r' post] step show ?thesis by auto
    next
      case (Cons p pre')
      with eq have "cv_fold_runs L s n folds ga = pre' @ (idx, g0, r) # (idx', g1, r') # post"
        by simp
      from Cons.IH[OF this] show ?thesis .
    qed
  qed
qed

lemma cv_fold_runs_all_score:
  "map (\<lambda>x. snd (snd x)) (cv_fold_runs L s n folds g) = map Inr ls \<Longrightarrow>
   length ls = length folds \<and> fst (cv_folds L s n folds acc g) = Inr (foldl py_add acc ls)"
proof (induction folds arbitrary: g acc ls)
  case Nil
  then show ?case by simp
next
  case (Cons a folds)
  obtain ra ga where step: "cv_fold L s n a g = (ra, ga)" by (cases "cv_fold L s n a g")
  show ?case
  proof (cases ra)
    case (Inl e)
    with step Cons.prems show ?thesis by (cases ls) auto
  next
    case (Inr l)
    with step Cons.prems obtain ls' where ls: "ls = l # ls'"
      and rest: "map (\<lambda>x. snd (snd x)) (cv_fold_runs L s n folds ga) = map Inr ls'"
      by (cases ls) auto
    from Cons.IH[OF rest, of "py_add acc l"] step Inr ls show ?thesis by simp
  qed
qed

lemma cv_fold_runs_raise:
  "cv_fold_runs L s n folds g = pre @ [(idx, g0, Inl e)] \<Longrightarrow>
   length pre < length folds \<and>
   cv_folds L s n folds acc g = (Inl e, snd (cv_fold L s n idx g0))"
proof (induction folds arbitrary: g acc pre)
  case Nil
  then show ?case by simp
next
  case (Cons a folds)
  obtain ra ga where step: "cv_fold L s n a g = (ra, ga)" by (cases "cv_fold L s n a g")
  show ?case
  proof (cases ra)
    case (Inl e')
    with step Cons.prems have "[(a, g, Inl e')] = pre @ [(idx, g0, Inl e)]" by simp
    then have "pre = []" "a = idx" "g = g0" "e' = e" by (cases pre; auto)+
    with step Inl show ?thesis by simp
  next
    case (Inr l)
    with step Cons.prems have eq:
      "(a, g, Inr l) # cv_fold_runs L s n folds ga = pre @ [(idx, g0, Inl e)]" by simp
    then obtain pre' where pre: "pre = (a, g, Inr l) # pre'"
      and rest: "cv_fold_runs L s n folds ga = pre' @ [(idx, g0, Inl e)]"
      by (cases pre) auto
    from Cons.IH[OF rest, of "py_add acc l"] step Inr pre show ?thesis by simp
  qed
qed

lemma cv_fold_runs_shape:
  "(\<exists>ls. map (\<lambda>x. snd (snd x)) (cv_fold_runs L s n folds g) = map Inr ls) \<or>
   (\<exists>pre idx g0 e. cv_fold_runs L s n folds g = pre @ [(idx, g0, Inl e)] \<and>
      (\<exists>ls. map (\<lambda>x. snd (snd x)) pre = map Inr ls))"
proof (induction folds arbitrary: g)
  case Nil
  then show ?case by simp
next
  case (Cons a folds)
  obtain ra ga where step: "cv_fold L s n a g = (ra, ga)" by (cases "cv_fold L s n a g")
  show ?case
  proof (cases ra)
    case (Inl e)
    with step have "cv_fold_runs L s n (a # folds) g = [] @ [(a, g, Inl e)] \<and>
      (\<exists>ls. map (\<lambda>x. snd (snd x)) [] = map Inr ls)" by simp
    then show ?thesis by (intro disjI2) blast
  next
    case (Inr l)
    with step have tr: "cv_fold_runs L s n (a # folds) g = (a, g, Inr l) # cv_fold_runs L s n folds ga"
      by simp
    from Cons.IH[of ga] show ?thesis
    proof
      assume "\<exists>ls. map (\<lambda>x. snd (snd x)) (cv_fold_runs L s n folds ga) = map Inr ls"
      then obtain ls where "map (\<lambda>x. snd (snd x)) (cv_fold_runs L s n folds ga) = map Inr ls"
        by blast
      with tr have "map (\<lambda>x. snd (snd x)) (cv_fold_runs L s n (a # folds) g) = map Inr (l # ls)"
        by simp
      then show ?thesis by blast
    next
      assume "\<exists>pre idx g0 e. cv_fold_runs L s n folds ga = pre @ [(idx, g0, Inl e)] \<and>
        (\<exists>ls. map (\<lambda>x. snd (snd x)) pre = map Inr ls)"
      then obtain pre idx g0 e ls where "cv_fold_runs L s n folds ga = pre @ [(idx, g0, Inl e)]"
        "map (\<lambda>x. snd (snd x)) pre = map Inr ls" by blast
      with tr have "cv_fold_runs L s n (a # folds) g = ((a, g, Inr l) # pre) @ [(idx, g0, Inl e)]"
        "map (\<lambda>x. snd (snd x)) ((a, g, Inr l) # pre) = map Inr (l # ls)" by simp_all
      then show ?thesis by blast
    qed
  qed
qed

lemma cv_fold_train_index_raises:
  "combine_sequences tr (sequences s) = Inl e \<Longrightarrow> cv_fold L s n (tr, te) g0 = (Inl e, g0)"
  by (simp add: cv_fold_def)

lemma cv_fold_fit_raises:
  "combine_sequences tr (sequences s) = Inr train \<Longrightarrow>
   fst (hmm_fit L (GaussianHMM n) train g0) = Inl e \<Longrightarrow>
   fst (cv_fold L s n (tr, te) g0) = Inl e"
  by (auto simp: cv_fold_def split: prod.splits sum.splits)

lemma cv_fold_test_index_raises:
  "combine_sequences tr (sequences s) = Inr train \<Longrightarrow>
   fst (hmm_fit L (GaussianHMM n) train g0) = Inr model \<Longrightarrow>
   combine_sequences te (sequences s) = Inl e \<Longrightarrow>
   fst (cv_fold L s n (tr, te) g0) = Inl e"
  by (auto simp: cv_fold_def split: prod.splits sum.splits)

lemma cv_fold_scores_held_out:
  "combine_sequences tr (sequences s) = Inr train \<Longrightarrow>
   fst (hmm_fit L (GaussianHMM n) train g0) = Inr model \<Longrightarrow>
   combine_sequences te (sequences s) = Inr test \<Longrightarrow>
   fst (cv_fold L s n (tr, te) g0) = hmm_score L model test"
  by (auto simp: cv_fold_def split: prod.splits sum.splits)

lemma cv_fold_state:
  "combine_sequences tr (sequences s) = Inr train \<Longrightarrow>
   snd (cv_fold L s n (tr, te) g0) = snd (hmm_fit L (GaussianHMM n) train g0)"
  by (auto simp: cv_fold_def split: prod.splits sum.splits)

lemma py_truediv_3: "\<exists>avg. py_truediv x 3 = Inr avg"
  by (cases x) auto

lemma kfold3_3: "kfold3 3 = Inr [([1, 2], [0]), ([0, 2], [1]), ([0, 1], [2])]"
  by code_simp

lemma kfold3_Suc: "kfold3 (Suc (Suc (Suc 0))) = Inr [([1, 2], [0]), ([0, 2], [1]), ([0, 1], [2])]"
  using kfold3_3 by (simp add: numeral_3_eq_3)

lemma upto_2_3: "[2..3::int] = [2, 3]"
  by (simp add: upto_rec1)

lemma three_sequences_split:
  "kfold_split (table_lib second_fold_fails cv_scores) (length (sequences three_sequences)) =
     Inr [([1, 2], [0]), ([0, 2], [1]), ([0, 1], [2])]"
  by (simp add: table_lib_def three_sequences_def kfold3_Suc)

lemma cv_runs_2:
  "cv_fold_runs (table_lib second_fold_fails cv_scores) three_sequences 2
     [([1, 2], [0]), ([0, 2], [1]), ([0, 1], [2])] () =
   [(([1, 2], [0]), (), Inr (Fin (- 30))), (([0, 2], [1]), (), Inr (Fin (- 30))),
    (([0, 1], [2]), (), Inr (Fin (- 30)))]"
  by (simp add: table_lib_def three_sequences_def cv_fold_def combine_sequences_def
      second_fold_fails_def cv_scores_def GaussianHMM_def)

lemma cv_runs_3:
  "cv_fold_runs (table_lib second_fold_fails cv_scores) three_sequences 3
     [([1, 2], [0]), ([0, 2], [1]), ([0, 1], [2])] () =
   [(([1, 2], [0]), (), Inr (Fin (- 3)))] @ [(([0, 2], [1]), (), Inl FitError)]"
  by (simp add: table_lib_def three_sequences_def cv_fold_def combine_sequences_def
      second_fold_fails_def cv_scores_def GaussianHMM_def)

text \<open>
  Claim C4, as amended. For every candidate \<open>n\<close> and the folds the splitter yields, the
  folds are run in order, the first on the generator as the candidate found it and each
  next one on the generator as the training of the fold before left it. A fold trains a
  model with \<open>n\<close> states on the sequences at its training indices and its outcome is that
  model's score on the sequences at its test indices; it raises when training raises,
  when scoring raises, or when an index is out of range. If every fold trains and scores,
  all folds were run and the candidate's average is the sum of the held-out
  log-likelihoods divided by the constant 3, whatever the number of folds. If a fold
  raises, the candidate raises with it: the folds after it are not run (the generator is
  left as that fold's training left it), no average is computed, and the loop goes on to
  the next candidate with \<open>(best_num_components, best_avg)\<close> unchanged. One of the two
  is always the case.
\<close>

theorem cv_candidate_all_folds_or_none:
  assumes "kfold_split L (length (sequences s)) = Inr folds"
  shows
   "map fst (cv_fold_runs L s n folds g) = take (length (cv_fold_runs L s n folds g)) folds \<and>
    (\<forall>idx g0 r post. cv_fold_runs L s n folds g = (idx, g0, r) # post \<longrightarrow> g0 = g) \<and>
    (\<forall>pre tr te g0 r idx' g1 r' post train.
        cv_fold_runs L s n folds g = pre @ ((tr, te), g0, r) # (idx', g1, r') # post \<and>
        combine_sequences tr (sequences s) = Inr train \<longrightarrow>
        g1 = snd (hmm_fit L (GaussianHMM n) train g0)) \<and>
    (\<forall>tr te g0 r. ((tr, te), g0, r) \<in> set (cv_fold_runs L s n folds g) \<longrightarrow>
        (\<forall>e. combine_sequences tr (sequences s) = Inl e \<longrightarrow> r = Inl e) \<and>
        (\<forall>train e. combine_sequences tr (sequences s) = Inr train \<and>
           fst (hmm_fit L (GaussianHMM n) train g0) = Inl e \<longrightarrow> r = Inl e) \<and>
        (\<forall>train model e. combine_sequences tr (sequences s) = Inr train \<and>
           fst (hmm_fit L (GaussianHMM n) train g0) = Inr model \<and>
           combine_sequences te (sequences s) = Inl e \<longrightarrow> r = Inl e) \<and>
        (\<forall>train model test. combine_sequences tr (sequences s) = Inr train \<and>
           fst (hmm_fit L (GaussianHMM n) train g0) = Inr model \<and>
           combine_sequences te (sequences s) = Inr test \<longrightarrow> r = hmm_score L model test)) \<and>
    (\<forall>ls. map (\<lambda>x. snd (snd x)) (cv_fold_runs L s n folds g) = map Inr ls \<longrightarrow>
        length ls = length folds \<and>
        fst (cv_candidate L s n g) = py_truediv (foldl py_add (PyInt 0) ls) 3 \<and>
        (\<exists>logL_avg. fst (cv_candidate L s n g) = Inr logL_avg)) \<and>
    (\<forall>pre tr te g0 e. cv_fold_runs L s n folds g = pre @ [((tr, te), g0, Inl e)] \<longrightarrow>
        length pre < length folds \<and>
        fst (cv_candidate L s n g) = Inl e \<and>
        (\<forall>e'. combine_sequences tr (sequences s) = Inl e' \<longrightarrow> snd (cv_candidate L s n g) = g0) \<and>
        (\<forall>train. combine_sequences tr (sequences s) = Inr train \<longrightarrow>
           snd (cv_candidate L s n g) = snd (hmm_fit L (GaussianHMM n) train g0)) \<and>
        (\<forall>best best_avg ns. cv_loop L s (n # ns) (best, best_avg, g) =
           cv_loop L s ns (best, best_avg, snd (cv_candidate L s n g)))) \<and>
    ((\<exists>ls. map (\<lambda>x. snd (snd x)) (cv_fold_runs L s n folds g) = map Inr ls) \<or>
     (\<exists>pre idx g0 e. cv_fold_runs L s n folds g = pre @ [(idx, g0, Inl e)] \<and>
        (\<exists>ls. map (\<lambda>x. snd (snd x)) pre = map Inr ls)))"
proof -
  have chain: "g1 = snd (hmm_fit L (GaussianHMM n) train g0)"
    if "cv_fold_runs L s n folds g = pre @ ((tr, te), g0, r) # (idx', g1, r') # post"
      "combine_sequences tr (sequences s) = Inr train"
    for pre tr te g0 r idx' g1 r' post train
    using cv_fold_runs_chain[OF that(1)] cv_fold_state[OF that(2)] by simp
  have entry: "(\<forall>e. combine_sequences tr (sequences s) = Inl e \<longrightarrow> r = Inl e) \<and>
        (\<forall>train e. combine_sequences tr (sequences s) = Inr train \<and>
           fst (hmm_fit L (GaussianHMM n) train g0) = Inl e \<longrightarrow> r = Inl e) \<and>
        (\<forall>train model e. combine_sequences tr (sequences s) = Inr train \<and>
           fst (hmm_fit L (GaussianHMM n) train g0) = Inr model \<and>
           combine_sequences te (sequences s) = Inl e \<longrightarrow> r = Inl e) \<and>
        (\<forall>train model test. combine_sequences tr (sequences s) = Inr train \<and>
           fst (hmm_fit L (GaussianHMM n) train g0) = Inr model \<and>
           combine_sequences te (sequences s) = Inr test \<longrightarrow> r = hmm_score L model test)"
    if mem: "((tr, te), g0, r) \<in> set (cv_fold_runs L s n folds g)" for tr te g0 r
  proof -
    have r: "r = fst (cv_fold L s n (tr, te) g0)" using cv_fold_runs_mem[OF mem] .
    have a: "r = Inl e" if "combine_sequences tr (sequences s) = Inl e" for e
      using r cv_fold_train_index_raises[OF that, of L n te g0] by simp
    have b: "r = Inl e" if "combine_sequences tr (sequences s) = Inr train"
      "fst (hmm_fit L (GaussianHMM n) train g0) = Inl e" for train e
      using r cv_fold_fit_raises[OF that, of te] by simp
    have c: "r = Inl e" if "combine_sequences tr (sequences s) = Inr train"
      "fst (hmm_fit L (GaussianHMM n) train g0) = Inr model"
      "combine_sequences te (sequences s) = Inl e" for train model e
      using r cv_fold_test_index_raises[OF that] by simp
    have d: "r = hmm_score L model test" if "combine_sequences tr (sequences s) = Inr train"
      "fst (hmm_fit L (GaussianHMM n) train g0) = Inr model"
      "combine_sequences te (sequences s) = Inr test" for train model test
      using r cv_fold_scores_held_out[OF that] by simp
    show ?thesis
      apply (intro conjI allI impI)
      subgoal using a by blast
      subgoal using b by blast
      subgoal using c by blast
      subgoal using d by blast
      done
  qed
  have ok: "length ls = length folds \<and>
        fst (cv_candidate L s n g) = py_truediv (foldl py_add (PyInt 0) ls) 3 \<and>
        (\<exists>logL_avg. fst (cv_candidate L s n g) = Inr logL_avg)"
    if "map (\<lambda>x. snd (snd x)) (cv_fold_runs L s n folds g) = map Inr ls" for ls
  proof -
    from cv_fold_runs_all_score[OF that, of "PyInt 0"] obtain g1 where
      len: "length ls = length folds" and
      run: "cv_folds L s n folds (PyInt 0) g = (Inr (foldl py_add (PyInt 0) ls), g1)"
      by (cases "cv_folds L s n folds (PyInt 0) g") auto
    obtain avg where avg: "py_truediv (foldl py_add (PyInt 0) ls) 3 = Inr avg"
      using py_truediv_3 by blast
    from assms run avg len show ?thesis by (simp add: cv_candidate_def)
  qed
  have bad: "length pre < length folds \<and>
        fst (cv_candidate L s n g) = Inl e \<and>
        (\<forall>e'. combine_sequences tr (sequences s) = Inl e' \<longrightarrow> snd (cv_candidate L s n g) = g0) \<and>
        (\<forall>train. combine_sequences tr (sequences s) = Inr train \<longrightarrow>
           snd (cv_candidate L s n g) = snd (hmm_fit L (GaussianHMM n) train g0)) \<and>
        (\<forall>best best_avg ns. cv_loop L s (n # ns) (best, best_avg, g) =
           cv_loop L s ns (best, best_avg, snd (cv_candidate L s n g)))"
    if "cv_fold_runs L s n folds g = pre @ [((tr, te), g0, Inl e)]" for pre tr te g0 e
  proof -
    from cv_fold_runs_raise[OF that, of "PyInt 0"] have len: "length pre < length folds"
      and run: "cv_folds L s n folds (PyInt 0) g = (Inl e, snd (cv_fold L s n (tr, te) g0))"
      by auto
    with assms have c: "cv_candidate L s n g = (Inl e, snd (cv_fold L s n (tr, te) g0))"
      by (simp add: cv_candidate_def)
    have s1: "snd (cv_candidate L s n g) = g0" if "combine_sequences tr (sequences s) = Inl e'" for e'
      using c cv_fold_train_index_raises[OF that, of L n te g0] by simp
    have s2: "snd (cv_candidate L s n g) = snd (hmm_fit L (GaussianHMM n) train g0)"
      if "combine_sequences tr (sequences s) = Inr train" for train
      using c cv_fold_state[OF that, of L n te g0] by simp
    have skip: "cv_loop L s (n # ns) (best, best_avg, g) =
           cv_loop L s ns (best, best_avg, snd (cv_candidate L s n g))" for best best_avg ns
      using c by simp
    show ?thesis using len c s1 s2 skip by simp
  qed
  show ?thesis
    apply (intro conjI)
    subgoal by (rule cv_fold_runs_prefix)
    subgoal using cv_fold_runs_head by fast
    subgoal using chain by blast
    subgoal using entry by blast
    subgoal using ok by blast
    subgoal using bad by blast
    subgoal by (rule cv_fold_runs_shape)
    done
qed

theorem cv_candidate_all_folds_or_none_witness:
  "kfold_split (table_lib second_fold_fails cv_scores) (length (sequences three_sequences)) =
     Inr [([1, 2], [0]), ([0, 2], [1]), ([0, 1], [2])] \<and>
   cv_fold_runs (table_lib second_fold_fails cv_scores) three_sequences 2
     [([1, 2], [0]), ([0, 2], [1]), ([0, 1], [2])] () =
     [(([1, 2], [0]), (), Inr (Fin (- 30))), (([0, 2], [1]), (), Inr (Fin (- 30))),
      (([0, 1], [2]), (), Inr (Fin (- 30)))] \<and>
   combine_sequences [1, 2] (sequences three_sequences) = Inr ([[1], [2]], [1, 1]) \<and>
   fst (hmm_fit (table_lib second_fold_fails cv_scores) (GaussianHMM 2) ([[1], [2]], [1, 1]) ()) =
     Inr 2 \<and>
   combine_sequences [0] (sequences three_sequences) = Inr ([[0]], [1]) \<and>
   Inr (Fin (- 30)) = hmm_score (table_lib second_fold_fails cv_scores) 2 ([[0]], [1]) \<and>
   fst (cv_candidate (table_lib second_fold_fails cv_scores) three_sequences 2 ()) =
     Inr (Fin (- 30)) \<and>
   cv_fold_runs (table_lib second_fold_fails cv_scores) three_sequences 3
     [([1, 2], [0]), ([0, 2], [1]), ([0, 1], [2])] () =
     [(([1, 2], [0]), (), Inr (Fin (- 3)))] @ [(([0, 2], [1]), (), Inl FitError)] \<and>
   fst (cv_candidate (table_lib second_fold_fails cv_scores) three_sequences 3 ()) = Inl FitError \<and>
   cv_loop (table_lib second_fold_fails cv_scores) three_sequences [3] (2, Fin (- 30), ()) =
     (2, Fin (- 30), ())"
proof -
  note two = cv_candidate_all_folds_or_none[OF three_sequences_split, of 2 "()"]
  note three = cv_candidate_all_folds_or_none[OF three_sequences_split, of 3 "()"]
  have tr: "combine_sequences [1, 2] (sequences three_sequences) = Inr ([[1], [2]], [1, 1])"
    by (simp add: combine_sequences_def three_sequences_def)
  have te: "combine_sequences [0] (sequences three_sequences) = Inr ([[0]], [1])"
    by (simp add: combine_sequences_def three_sequences_def)
  have fit: "fst (hmm_fit (table_lib second_fold_fails cv_scores) (GaussianHMM 2)
      ([[1], [2]], [1, 1]) ()) = Inr 2"
    by (simp add: table_lib_def second_fold_fails_def GaussianHMM_def)
  have mem: "(([1, 2], [0]), (), Inr (Fin (- 30))) \<in>
    set (cv_fold_runs (table_lib second_fold_fails cv_scores) three_sequences 2
     [([1, 2], [0]), ([0, 2], [1]), ([0, 1], [2])] ())"
    unfolding cv_runs_2 by simp
  note entry = two[THEN conjunct2, THEN conjunct2, THEN conjunct2, THEN conjunct1, rule_format,
      OF mem]
  from entry[THEN conjunct2, THEN conjunct2, THEN conjunct2, rule_format,
      OF conjI[OF tr conjI[OF fit te]]]
  have held:
    "Inr (Fin (- 30)) = hmm_score (table_lib second_fold_fails cv_scores) 2 ([[0]], [1])" .
  have vals2: "map (\<lambda>x. snd (snd x))
     (cv_fold_runs (table_lib second_fold_fails cv_scores) three_sequences 2
       [([1, 2], [0]), ([0, 2], [1]), ([0, 1], [2])] ()) =
     map Inr [Fin (- 30), Fin (- 30), Fin (- 30)]"
    unfolding cv_runs_2 by simp
  from two[THEN conjunct2, THEN conjunct2, THEN conjunct2, THEN conjunct2, THEN conjunct1,
      rule_format, OF vals2]
  have "fst (cv_candidate (table_lib second_fold_fails cv_scores) three_sequences 2 ()) =
       py_truediv (foldl py_add (PyInt 0) [Fin (- 30), Fin (- 30), Fin (- 30)]) 3" by simp
  then have c2: "fst (cv_candidate (table_lib second_fold_fails cv_scores) three_sequences 2 ()) =
     Inr (Fin (- 30))" by simp
  note bad = three[THEN conjunct2, THEN conjunct2, THEN conjunct2, THEN conjunct2, THEN conjunct2,
      THEN conjunct1, rule_format, OF cv_runs_3]
  from bad have
    c3: "fst (cv_candidate (table_lib second_fold_fails cv_scores) three_sequences 3 ()) = Inl FitError"
    by simp
  from bad have
    "cv_loop (table_lib second_fold_fails cv_scores) three_sequences [3] (2, Fin (- 30), ()) =
     cv_loop (table_lib second_fold_fails cv_scores) three_sequences []
        (2, Fin (- 30), snd (cv_candidate (table_lib second_fold_fails cv_scores) three_sequences 3 ()))"
    by blast
  then have l: "cv_loop (table_lib second_fold_fails cv_scores) three_sequences [3] (2, Fin (- 30), ()) =
     (2, Fin (- 30), ())" by simp
  show ?thesis using three_sequences_split cv_runs_2 tr fit te held c2 cv_runs_3 c3 l
    by (intro conjI)
qed

text \<open>
  Claim C4 as stated fails when a fold raises. With three states the first fold scores
  \<open>-3\<close>, training on the second fold raises, and the third fold would score \<open>-3\<close>.
  Skipping the failed fold alone would give the candidate the average \<open>-2\<close>, better
  than the \<open>-30\<close> of the candidate with two states; the code abandons the candidate
  and selects two states.
\<close>

theorem cv_candidate_counterexample:
  "fst (cv_candidate (table_lib second_fold_fails cv_scores) three_sequences 3 ()) = Inl FitError \<and>
   fst (cv_candidate_skipping (table_lib second_fold_fails cv_scores) three_sequences 3 ()) =
     Inr (Fin (- 2)) \<and>
   fst (cv_candidate (table_lib second_fold_fails cv_scores) three_sequences 2 ()) =
     Inr (Fin (- 30)) \<and>
   cv_best (table_lib second_fold_fails cv_scores) three_sequences () = (2, ())"
  by (simp add: cv_best_def cv_candidate_def cv_candidate_skipping_def upto_2_3 kfold3_Suc
      table_lib_def three_sequences_def cv_fold_def combine_sequences_def
      second_fold_fails_def cv_scores_def GaussianHMM_def fl_gt_def)

text \<open>
  Claim C9. The candidates of \<open>SelectorBIC.select\<close> are trained by
  \<open>GaussianHMM(n_components=n)\<close>, without the selector's \<open>random_state\<close>; only
  \<open>base_model\<close> passes the seed. With a library that is deterministic for every
  seeded estimator, two calls of \<open>select\<close> on the same selector, the second starting
  from the generator as the first left it, return models with 2 and with 3 states.
\<close>

theorem SelectorBIC_select_twice_differs:
  "SelectorBIC_select rng_lib (cat_selector\<lparr>max_n_components := 3\<rparr>) 0 = (Inr (Some (2, 14)), 2) \<and>
   SelectorBIC_select rng_lib (cat_selector\<lparr>max_n_components := 3\<rparr>) 2 = (Inr (Some (3, 14)), 4) \<and>
   (\<forall>n it seed d g g'.
      hmm_fit rng_lib \<lparr>n_components = n, n_iter = it, hmm_random_state = Some seed\<rparr> d g =
        (fst (hmm_fit rng_lib \<lparr>n_components = n, n_iter = it, hmm_random_state = Some seed\<rparr> d g'),
         g))"
  by (simp add: SelectorBIC_select_def base_model_def cat_selector_def upto_2_3 rng_lib_def
      bic_candidate_def GaussianHMM_def bic_p_def np_log_def Let_def)

end
